theory Spec2Isabelle
  imports Complex_Main "HOL-Library.Word" "HOL-Library.Log_Nat"
begin

unbundle bit_operations_syntax

section \<open>Field values, errors and the circuit under construction\<close>

text \<open>
  Modelled from the spec: the \<open>Field\<close> class is imported from \<open>../field.js\<close>. A field value is
  either a \<open>Constant\<close> (a concrete integer known at construction time) or a \<open>Variable\<close>
  (a symbolic handle, here the number of the circuit variable). \<open>new Field(n)\<close> on a
  bigint \<open>n\<close> is \<open>Constant n\<close>; \<open>isConstant\<close> tells the two apart, and \<open>toBigInt\<close>, below,
  reads the integer of a constant and the assigned value of a variable.
\<close>

datatype field = Constant int | Variable nat

fun isConstant :: "field \<Rightarrow> bool" where
  "isConstant (Constant c) = True"
| "isConstant (Variable v) = False"

text \<open>
  Every \<open>throw Error(...)\<close> of the two source files is a constructor. A range violation
  carries the bit widths and the field values that the message interpolates; the
  invariant violation of \<open>getNode\<close> carries the level and the index of its message.
  \<open>UndefinedEntry\<close> stands for the \<open>TypeError\<close> of JavaScript when a property of
  \<open>undefined\<close> is written, or when \<open>Field(undefined)\<close> is built; \<open>InvalidArrayLength\<close>
  for the \<open>RangeError\<close> of \<open>Array(n)\<close> when \<open>n\<close> is not an array length, an integer from 0
  to \<open>2^32 - 1\<close>.
\<close>

datatype error =
    RangeViolation "nat list" "field list"
  | NodeExpectedKnown nat nat
  | UndefinedEntry
  | InvalidArrayLength

text \<open>
  Modelled from the spec: the custom gates \<open>Gates.rangeCheck0\<close> and \<open>Gates.rangeCheck1\<close>
  (\<open>../gates.js\<close>) are opaque constraint emitters: a call appends the gate, with the
  arguments it was given, to the constraint system.
\<close>

datatype gate =
    RangeCheck0 field "field list" "field list" bool
  | RangeCheck1 field field "field list" "field list"

text \<open>
  Modelled from the spec: the constraint system that the gadgets write to. \<open>nextVar\<close> is
  the number of circuit variables introduced so far, \<open>assignment\<close> the concrete value
  of each variable during witness generation, \<open>gates\<close> the constraints in program order.
\<close>

record circuit =
  nextVar :: nat
  assignment :: "nat \<Rightarrow> int"
  gates :: "gate list"

fun toBigInt :: "circuit \<Rightarrow> field \<Rightarrow> int" where
  "toBigInt cs (Constant c) = c"
| "toBigInt cs (Variable v) = assignment cs v"

text \<open>
  A field value that a gadget receives is a constant or a variable that the circuit has
  introduced already.
\<close>

fun allocated :: "circuit \<Rightarrow> field \<Rightarrow> bool" where
  "allocated cs (Constant c) = True"
| "allocated cs (Variable v) = (v < nextVar cs)"

text \<open>
  Modelled from the spec: \<open>exists(n, compute)\<close> (\<open>./common.js\<close>) introduces new circuit
  variables, seeded with the integers that \<open>compute\<close> returns, and returns their handles.
  The model takes the computed values \<open>vals\<close>; their number is \<open>n\<close>.
\<close>

definition exists_vars :: "int list \<Rightarrow> circuit \<Rightarrow> field list \<times> circuit" where
  "exists_vars vals cs =
     (map Variable [nextVar cs ..< nextVar cs + length vals],
      cs\<lparr>nextVar := nextVar cs + length vals,
         assignment := (\<lambda>v. if nextVar cs \<le> v \<and> v < nextVar cs + length vals
                              then vals ! (v - nextVar cs) else assignment cs v)\<rparr>)"

definition addGate :: "gate \<Rightarrow> circuit \<Rightarrow> circuit" where
  "addGate g cs = cs\<lparr>gates := gates cs @ [g]\<rparr>"

text \<open>
  Modelled from the spec: \<open>bitSlice(x, start, length)\<close> (\<open>./common.js\<close>) returns the
  \<open>length\<close>-bit unsigned integer at bit offset \<open>start\<close> of \<open>x\<close>.
\<close>

definition bitSlice :: "int \<Rightarrow> nat \<Rightarrow> nat \<Rightarrow> int" where
  "bitSlice x start len = take_bit len (drop_bit start x)"

section \<open>Range-check gadgets (range-check.ts)\<close>

definition rangeCheck64 :: "field \<Rightarrow> circuit \<Rightarrow> error + (field list \<times> circuit)" where
  "rangeCheck64 x cs =
     (if isConstant x then
        (let xx = toBigInt cs x in
         if xx \<ge> push_bit 64 1 then Inl (RangeViolation [64] [x])
         else Inr ([Constant (bitSlice xx 52 12), Constant (bitSlice xx 40 12),
                    Constant (bitSlice xx 28 12), Constant (bitSlice xx 16 12)], cs))
      else
        (let xx = toBigInt cs x;
             (crumbs, cs1) = exists_vars
               [bitSlice xx 0 2, bitSlice xx 2 2, bitSlice xx 4 2, bitSlice xx 6 2,
                bitSlice xx 8 2, bitSlice xx 10 2, bitSlice xx 12 2, bitSlice xx 14 2] cs;
             xx1 = toBigInt cs1 x;
             (limbs, cs2) = exists_vars
               [bitSlice xx1 16 12, bitSlice xx1 28 12, bitSlice xx1 40 12,
                bitSlice xx1 52 12] cs1;
             cs3 = addGate (RangeCheck0 x ([Constant 0, Constant 0] @ rev limbs)
                              (rev crumbs) False) cs2
         in Inr (rev limbs, cs3)))"

text \<open>The constants \<open>L\<close>, \<open>twoL\<close> and \<open>lMask\<close>.\<close>

definition L :: nat where
  "L = 88"

definition twoL :: nat where
  "twoL = 2 * L"

definition lMask :: int where
  "lMask = push_bit L 1 - 1"

definition rangeCheck0Helper :: "field \<Rightarrow> bool \<Rightarrow> circuit \<Rightarrow> (field \<times> field) \<times> circuit" where
  "rangeCheck0Helper x isCompact cs =
     (let xx = toBigInt cs x;
          (crumbs, cs1) = exists_vars
            [bitSlice xx 0 2, bitSlice xx 2 2, bitSlice xx 4 2, bitSlice xx 6 2,
             bitSlice xx 8 2, bitSlice xx 10 2, bitSlice xx 12 2, bitSlice xx 14 2] cs;
          xx1 = toBigInt cs1 x;
          (limbs, cs2) = exists_vars
            [bitSlice xx1 16 12, bitSlice xx1 28 12, bitSlice xx1 40 12,
             bitSlice xx1 52 12, bitSlice xx1 64 12, bitSlice xx1 76 12] cs1;
          cs3 = addGate (RangeCheck0 x (rev limbs) (rev crumbs) isCompact) cs2
      in ((limbs ! 4, limbs ! 5), cs3))"

definition rangeCheck1Helper ::
  "field \<Rightarrow> field \<Rightarrow> field \<Rightarrow> field \<Rightarrow> field \<Rightarrow> field \<Rightarrow> circuit \<Rightarrow> circuit" where
  "rangeCheck1Helper x64 x76 y64 y76 z yz cs =
     (let zz = toBigInt cs z;
          (cur, cs1) = exists_vars
            [bitSlice zz 22 2, bitSlice zz 24 2, bitSlice zz 26 2, bitSlice zz 28 2,
             bitSlice zz 30 2, bitSlice zz 32 2, bitSlice zz 34 2, bitSlice zz 36 2,
             bitSlice zz 38 12, bitSlice zz 50 12, bitSlice zz 62 12, bitSlice zz 74 12,
             bitSlice zz 86 2] cs;
          zz1 = toBigInt cs1 z;
          (nxt, cs2) = exists_vars
            [bitSlice zz1 0 2, bitSlice zz1 2 2, bitSlice zz1 4 2, bitSlice zz1 6 2,
             bitSlice zz1 8 2, bitSlice zz1 10 2, bitSlice zz1 12 2, bitSlice zz1 14 2,
             bitSlice zz1 16 2, bitSlice zz1 18 2, bitSlice zz1 20 2] cs1
      in addGate (RangeCheck1 z yz (rev cur)
                    (rev (drop 8 nxt) @ [x76, x64, y76, y64] @ rev (take 8 nxt))) cs2)"

definition multiRangeCheck :: "field \<times> field \<times> field \<Rightarrow> circuit \<Rightarrow> error + circuit" where
  "multiRangeCheck xyz cs =
     (case xyz of (x, y, z) \<Rightarrow>
        if isConstant x \<and> isConstant y \<and> isConstant z then
          (if drop_bit L (toBigInt cs x) \<noteq> 0 \<or> drop_bit L (toBigInt cs y) \<noteq> 0
              \<or> drop_bit L (toBigInt cs z) \<noteq> 0
           then Inl (RangeViolation [L] [x, y, z])
           else Inr cs)
        else
          (let ((x64, x76), cs1) = rangeCheck0Helper x False cs;
               ((y64, y76), cs2) = rangeCheck0Helper y False cs1
           in Inr (rangeCheck1Helper x64 x76 y64 y76 z (Constant 0) cs2)))"

definition splitCompactLimb :: "int \<Rightarrow> int \<times> int" where
  "splitCompactLimb x01 = (x01 AND lMask, drop_bit L x01)"

definition compactMultiRangeCheck ::
  "field \<Rightarrow> field \<Rightarrow> circuit \<Rightarrow> error + ((field \<times> field \<times> field) \<times> circuit)" where
  "compactMultiRangeCheck xy z cs =
     (if isConstant xy \<and> isConstant z then
        (if drop_bit twoL (toBigInt cs xy) \<noteq> 0 \<or> drop_bit L (toBigInt cs z) \<noteq> 0
         then Inl (RangeViolation [twoL, L] [xy, z])
         else (case splitCompactLimb (toBigInt cs xy) of
                 (x, y) \<Rightarrow> Inr ((Constant x, Constant y, z), cs)))
      else
        (let (x0, y0) = splitCompactLimb (toBigInt cs xy);
             (xyv, cs1) = exists_vars [x0, y0] cs;
             x = xyv ! 0; y = xyv ! 1;
             ((z64, z76), cs2) = rangeCheck0Helper z False cs1;
             ((x64, x76), cs3) = rangeCheck0Helper x True cs2
         in Inr ((x, y, z), rangeCheck1Helper z64 z76 x64 x76 y xy cs3)))"

section \<open>JavaScript numbers\<close>

text \<open>
  The indices and the lengths of the source are JavaScript numbers, IEEE 754 doubles.
  An index and the length of a sequence are integers: \<open>number\<close> holds the doubles that are
  integers, and the three special values that arithmetic on them can produce; \<open>-0\<close> is
  not told apart from \<open>0\<close>. \<open>round_double x\<close> is the double nearest to the integer \<open>x\<close>: below
  \<open>2^53\<close> it is \<open>x\<close>, beyond it the 53 leading bits are kept, rounded to nearest with ties
  to the even significand, and from \<open>2^1024 - 2^970\<close> on the result is infinite.
\<close>

datatype number = Finite int | PosInfinity | NegInfinity | NaN

definition round_double :: "int \<Rightarrow> number" where
  "round_double x =
     (let a = \<bar>x\<bar> in
      if a < 2 ^ 53 then Finite x
      else
        (let e = nat (bitlen a) - 53;
             q = a div 2 ^ e;
             r = a mod 2 ^ e;
             half = 2 ^ (e - 1);
             q' = (if half < r \<or> (r = half \<and> odd q) then q + 1 else q);
             y = q' * 2 ^ e
         in if 2 ^ 1024 \<le> y then (if x < 0 then NegInfinity else PosInfinity)
            else Finite (sgn x * y)))"

text \<open>
  The operations of the source on numbers: \<open>a + b\<close>, \<open>a - 1\<close>, \<open>Math.ceil(a / 2)\<close> and
  \<open>a === b\<close>. Sum and difference of two integers are rounded once. The half of a double
  that is an integer is a double, so that \<open>Math.ceil(a / 2)\<close> is the ceiling of the exact
  half.
\<close>

fun num_add :: "number \<Rightarrow> number \<Rightarrow> number" where
  "num_add (Finite a) (Finite b) = round_double (a + b)"
| "num_add NaN y = NaN"
| "num_add x NaN = NaN"
| "num_add PosInfinity NegInfinity = NaN"
| "num_add NegInfinity PosInfinity = NaN"
| "num_add PosInfinity y = PosInfinity"
| "num_add x PosInfinity = PosInfinity"
| "num_add NegInfinity y = NegInfinity"
| "num_add x NegInfinity = NegInfinity"

fun num_pred :: "number \<Rightarrow> number" where
  "num_pred (Finite a) = round_double (a - 1)"
| "num_pred x = x"

fun ceil_half :: "number \<Rightarrow> number" where
  "ceil_half (Finite s) = Finite \<lceil>real_of_int s / 2\<rceil>"
| "ceil_half x = x"

fun strict_equal :: "number \<Rightarrow> number \<Rightarrow> bool" where
  "strict_equal NaN y = False"
| "strict_equal x NaN = False"
| "strict_equal x y = (x = y)"


section \<open>Indexed Merkle map (merkle-tree-indexed.ts)\<close>

text \<open>
  The hash \<open>PoseidonBigint.hash\<close> (\<open>bindings/crypto/poseidon.js\<close>) is not part of the sources:
  every function that hashes takes it as its first argument \<open>H\<close>, a function from a list
  of integers to an integer.
\<close>

type_synonym hash = "int list \<Rightarrow> int"

text \<open>
  The class \<open>Leaf\<close> with its four fields (\<open>key\<close> and \<open>value\<close> carry a prefix here), and
  the class \<open>IndexedMerkleMap\<close>: the provable interface \<open>root\<close>, \<open>length\<close>
  (\<open>length_field\<close> here) and \<open>height\<close>, and the three parts of \<open>data\<close>. The field
  \<open>height\<close> is declared, and read by \<open>setLeafNode\<close>, but the constructor does not assign
  it: its value \<open>None\<close> is \<open>undefined\<close>. A level of \<open>nodes\<close> is a sparse array of hashes:
  a partial map from the index to the hash, where \<open>None\<close> is \<open>undefined\<close>. Levels and
  indices are array indices, natural numbers.
\<close>

record LeafValue =
  leaf_key :: int
  leaf_value :: int
  nextKey :: int
  nextIndex :: int

record IndexedMerkleMap =
  root :: field
  length_field :: field
  height :: "nat option"
  leaves :: "LeafValue list"
  nodes :: "(nat \<rightharpoonup> int) list"
  lowNodes :: "LeafValue list"

text \<open>
  The cache \<open>emptyNodes\<close> is a module-level array, initially \<open>[0n]\<close>, that \<open>empty\<close>
  extends: the functions below take its current content and return the new one with
  their result. \<open>array_write\<close> is the assignment \<open>emptyNodes[i] = v\<close>; in \<open>empty\<close> the
  index \<open>i\<close> starts at \<open>emptyNodes.length\<close> and moves with it, so that it is never beyond
  the end of the array.
\<close>

definition array_write :: "'a list \<Rightarrow> nat \<Rightarrow> 'a \<Rightarrow> 'a list" where
  "array_write xs i v = (if i < length xs then xs[i := v] else xs @ [v])"

function empty_loop :: "hash \<Rightarrow> nat \<Rightarrow> nat \<Rightarrow> int list \<Rightarrow> int list" where
  "empty_loop H level i emptyNodes =
     (if i \<le> level then
        (let zero = emptyNodes ! (i - 1)
         in empty_loop H level (i + 1) (array_write emptyNodes i (H [zero, zero])))
      else emptyNodes)"
  by pat_completeness auto
termination
  by (relation "measure (\<lambda>(H, level, i, emptyNodes). level + 1 - i)") auto

declare empty_loop.simps [simp del]

definition empty :: "hash \<Rightarrow> int list \<Rightarrow> nat \<Rightarrow> int \<times> int list" where
  "empty H emptyNodes level =
     (let emptyNodes' = empty_loop H level (length emptyNodes) emptyNodes
      in (emptyNodes' ! level, emptyNodes'))"

text \<open>
  \<open>getNode\<close> reads \<open>nodes[level]?.[index]\<close> (\<open>cached_node\<close>), which is \<open>undefined\<close> also
  where the level does not exist, and either throws or falls back to \<open>empty(level)\<close>.
\<close>

definition cached_node :: "IndexedMerkleMap \<Rightarrow> nat \<Rightarrow> nat \<Rightarrow> int option" where
  "cached_node this level index =
     (if level < length (nodes this) then (nodes this ! level) index else None)"

definition getNode ::
  "hash \<Rightarrow> int list \<Rightarrow> IndexedMerkleMap \<Rightarrow> nat \<Rightarrow> nat \<Rightarrow> bool \<Rightarrow> error + (int \<times> int list)" where
  "getNode H emptyNodes this level index nonEmpty =
     (case cached_node this level index of
        Some node \<Rightarrow> Inr (node, emptyNodes)
      | None \<Rightarrow>
          if nonEmpty then Inl (NodeExpectedKnown level index)
          else Inr (empty H emptyNodes level))"




text \<open>
  The constructor, on an integer \<open>height\<close>. It assigns \<open>root\<close>, \<open>length\<close> and \<open>data\<close>, in
  this order, and nothing else: \<open>this.height\<close> stays \<open>undefined\<close>. For a height below 1,
  \<open>empty(height - 1)\<close> reads \<open>emptyNodes[-1]\<close>, which is \<open>undefined\<close>, and no field value
  is built from it; for a height of \<open>2^32\<close> or more, \<open>Array(height)\<close> throws. In both cases
  the construction fails.
\<close>

definition new_IndexedMerkleMap ::
  "hash \<Rightarrow> int list \<Rightarrow> int \<Rightarrow> error + (IndexedMerkleMap \<times> int list)" where
  "new_IndexedMerkleMap H emptyNodes h =
     (if h < 1 then Inl UndefinedEntry
      else
        (let (e, emptyNodes') = empty H emptyNodes (nat (h - 1))
         in if 2 ^ 32 \<le> h then Inl InvalidArrayLength
            else Inr (\<lparr>root = Constant e, length_field = Constant 0, height = None, leaves = [],
                       nodes = replicate (nat h) Map.empty, lowNodes = []\<rparr>, emptyNodes')))"

text \<open>
  The recurrence that the specification gives for the canonical hash of an empty subtree:
  \<open>empty(0) = 0\<close> and \<open>empty(level) = hash(empty(level - 1), empty(level - 1))\<close>. It is
  compared with the function \<open>empty\<close> of the source below.
\<close>

fun empty_spec :: "hash \<Rightarrow> nat \<Rightarrow> int" where
  "empty_spec H 0 = 0"
| "empty_spec H (Suc level) = H [empty_spec H level, empty_spec H level]"

text \<open>
  A notion for the proofs: a cache that holds the canonical hashes of the levels
  \<open>0 .. length - 1\<close>.
\<close>

definition canonical_emptyNodes :: "hash \<Rightarrow> int list \<Rightarrow> bool" where
  "canonical_emptyNodes H emptyNodes \<longleftrightarrow>
     emptyNodes \<noteq> [] \<and> emptyNodes = map (empty_spec H) [0 ..< length emptyNodes]"

text \<open>
  The contents that the cache \<open>emptyNodes\<close> can have: it starts as \<open>[0n]\<close>, and only
  \<open>empty\<close> writes to it.
\<close>

inductive reachable_emptyNodes :: "hash \<Rightarrow> int list \<Rightarrow> bool" for H :: hash where
  initial: "reachable_emptyNodes H [0]"
| after_empty: "reachable_emptyNodes H emptyNodes \<Longrightarrow>
     reachable_emptyNodes H (snd (empty H emptyNodes level))"

section \<open>Low-node search\<close>

text \<open>
  \<open>bisectUnique\<close>: the accessor \<open>getValue\<close> takes a number and returns a bigint. The
  \<open>while (true)\<close> loop is a partial function: \<open>None\<close> is a loop that never returns.
\<close>

record bisect_result =
  lowIndex :: number
  foundValue :: bool

partial_function (option) bisect_loop ::
  "int \<Rightarrow> (number \<Rightarrow> int) \<Rightarrow> number \<Rightarrow> number \<Rightarrow> bisect_result option" where
  "bisect_loop target getValue iLow iHigh =
     (if strict_equal iHigh iLow then
        Some \<lparr>lowIndex = iLow, foundValue = (getValue iLow = target)\<rparr>
      else
        (let iMid = ceil_half (num_add iLow iHigh) in
         if getValue iMid \<le> target then bisect_loop target getValue iMid iHigh
         else bisect_loop target getValue iLow (num_pred iMid)))"

declare bisect_loop.simps [code]

definition bisectUnique :: "int \<Rightarrow> (number \<Rightarrow> int) \<Rightarrow> number \<Rightarrow> bisect_result option" where
  "bisectUnique target getValue len =
     (let iLow = Finite 0; iHigh = num_pred len in
      if getValue iLow > target then Some \<lparr>lowIndex = Finite (- 1), foundValue = False\<rparr>
      else if getValue iHigh < target then Some \<lparr>lowIndex = iHigh, foundValue = False\<rparr>
      else bisect_loop target getValue iLow iHigh)"

text \<open>
  The same loop, cut off after a given number of iterations: \<open>bisect_loop_fuel k\<close> is
  \<open>None\<close> when the loop has not returned within \<open>k\<close> iterations.
\<close>

fun bisect_loop_fuel ::
  "nat \<Rightarrow> int \<Rightarrow> (number \<Rightarrow> int) \<Rightarrow> number \<Rightarrow> number \<Rightarrow> bisect_result option" where
  "bisect_loop_fuel 0 target getValue iLow iHigh = None"
| "bisect_loop_fuel (Suc k) target getValue iLow iHigh =
     (if strict_equal iHigh iLow then
        Some \<lparr>lowIndex = iLow, foundValue = (getValue iLow = target)\<rparr>
      else
        (let iMid = ceil_half (num_add iLow iHigh) in
         if getValue iMid \<le> target then bisect_loop_fuel k target getValue iMid iHigh
         else bisect_loop_fuel k target getValue iLow (num_pred iMid)))"

text \<open>
  An accessor for the examples: the sequence of the indices themselves, \<open>S[i] = i\<close>.
\<close>

fun index_value :: "number \<Rightarrow> int" where
  "index_value (Finite i) = i"
| "index_value x = 0"

section \<open>Properties of the range-check gadgets\<close>

text \<open>
  Claim C3. On a constant \<open>x\<close> below \<open>2^64\<close>, \<open>rangeCheck64\<close> returns the four 12-bit limbs
  at bit offsets 52, 40, 28 and 16, in this order, and adds nothing to the circuit; on a
  constant \<open>x\<close> of at least \<open>2^64\<close> it fails with a range violation that reports \<open>x\<close>.
\<close>

theorem rangeCheck64_constant:
  "(x < 2 ^ 64 \<longrightarrow>
      rangeCheck64 (Constant x) cs =
        Inr ([Constant (bitSlice x 52 12), Constant (bitSlice x 40 12),
              Constant (bitSlice x 28 12), Constant (bitSlice x 16 12)], cs))
   \<and> (x \<ge> 2 ^ 64 \<longrightarrow>
      rangeCheck64 (Constant x) cs = Inl (RangeViolation [64] [Constant x]))"
  by (simp add: rangeCheck64_def)

theorem rangeCheck64_constant_witness:
  "rangeCheck64 (Constant (2 ^ 63 + 2 ^ 17)) \<lparr>nextVar = 0, assignment = (\<lambda>v. 0), gates = []\<rparr> =
      Inr ([Constant 2048, Constant 0, Constant 0, Constant 2],
           \<lparr>nextVar = 0, assignment = (\<lambda>v. 0), gates = []\<rparr>)
   \<and> rangeCheck64 (Constant (2 ^ 64)) \<lparr>nextVar = 0, assignment = (\<lambda>v. 0), gates = []\<rparr> =
      Inl (RangeViolation [64] [Constant (2 ^ 64)])"
  using rangeCheck64_constant
          [of "2 ^ 63 + 2 ^ 17" "\<lparr>nextVar = 0, assignment = (\<lambda>v. 0), gates = []\<rparr>"]
        rangeCheck64_constant
          [of "2 ^ 64" "\<lparr>nextVar = 0, assignment = (\<lambda>v. 0), gates = []\<rparr>"]
  by (simp add: bitSlice_def)

subsection \<open>Shifts and masks on bounded integers\<close>

lemma and_low_mask:
  fixes x y :: int
  assumes "0 \<le> x" "x < 2 ^ n"
  shows "(x + y * 2 ^ n) AND (push_bit n 1 - 1) = x"
proof -
  have "(x + y * 2 ^ n) AND (push_bit n 1 - 1) = take_bit n (x + y * 2 ^ n)"
    by (simp add: take_bit_eq_mask mask_eq_exp_minus_1)
  also have "\<dots> = (x + y * 2 ^ n) mod 2 ^ n"
    by (simp only: take_bit_eq_mod)
  also have "\<dots> = x"
    using assms by simp
  finally show ?thesis .
qed

lemma drop_high_part:
  fixes x y :: int
  assumes "0 \<le> x" "x < 2 ^ n"
  shows "drop_bit n (x + y * 2 ^ n) = y"
  using assms by (simp add: drop_bit_eq_div)

lemma drop_bit_small:
  fixes z :: int
  assumes "0 \<le> z" "z < 2 ^ n"
  shows "drop_bit n z = 0"
  using assms by (simp add: drop_bit_eq_div)

lemma drop_bit_large:
  fixes z :: int
  assumes "2 ^ n \<le> z"
  shows "drop_bit n z \<noteq> 0"
proof -
  have "(2::int) ^ n div 2 ^ n \<le> z div 2 ^ n"
    using assms by (intro zdiv_mono1) auto
  then have "1 \<le> z div 2 ^ n" by simp
  then show ?thesis by (simp add: drop_bit_eq_div)
qed

lemma packed_pair_bound:
  fixes x y :: int
  assumes "0 \<le> x" "x < 2 ^ n" "0 \<le> y" "y < 2 ^ n"
  shows "x + y * 2 ^ n < 2 ^ (2 * n)" and "0 \<le> x + y * 2 ^ n"
proof -
  have "y + 1 \<le> 2 ^ n" using assms by simp
  then have "(y + 1) * 2 ^ n \<le> (2::int) ^ n * 2 ^ n" by (intro mult_right_mono) auto
  moreover have "(2::int) ^ (2 * n) = 2 ^ n * 2 ^ n"
    by (simp only: mult_2 power_add)
  moreover have "x + y * 2 ^ n < (y + 1) * 2 ^ n"
    using assms by (simp only: distrib_right)
  ultimately show "x + y * 2 ^ n < 2 ^ (2 * n)" by linarith
  show "0 \<le> x + y * 2 ^ n" using assms by simp
qed

lemma splitCompactLimb_packed:
  assumes "0 \<le> x" "x < 2 ^ L"
  shows "splitCompactLimb (x + y * 2 ^ L) = (x, y)"
  using assms by (simp only: splitCompactLimb_def lMask_def and_low_mask drop_high_part)

text \<open>
  Claim C4. Round trip: for constants \<open>x\<close>, \<open>y\<close>, \<open>z\<close> in \<open>[0, 2^88)\<close>, the compact
  multi-range-check of the packed pair \<open>x + y * 2^88\<close> and of \<open>z\<close> succeeds, returns exactly
  \<open>(x, y, z)\<close> and leaves the circuit as it was.
\<close>

theorem compactMultiRangeCheck_roundtrip:
  assumes "0 \<le> x" "x < 2 ^ 88" "0 \<le> y" "y < 2 ^ 88" "0 \<le> z" "z < 2 ^ 88"
  shows "compactMultiRangeCheck (Constant (x + y * 2 ^ 88)) (Constant z) cs =
           Inr ((Constant x, Constant y, Constant z), cs)"
proof -
  have x: "x < 2 ^ L" and y: "y < 2 ^ L" and z: "z < 2 ^ L"
    using assms by (simp_all add: L_def)
  have e: "(2::int) ^ 88 = 2 ^ L" by (simp add: L_def)
  have "drop_bit twoL (x + y * 2 ^ L) = 0"
    unfolding twoL_def using packed_pair_bound [OF assms(1) x assms(3) y]
    by (rule_tac drop_bit_small)
  moreover have "drop_bit L z = 0"
    using assms(5) z by (rule drop_bit_small)
  moreover have "splitCompactLimb (x + y * 2 ^ L) = (x, y)"
    using assms(1) x by (rule splitCompactLimb_packed)
  ultimately show ?thesis
    unfolding e by (simp add: compactMultiRangeCheck_def)
qed

theorem compactMultiRangeCheck_roundtrip_witness:
  "compactMultiRangeCheck (Constant (5 + 7 * 2 ^ 88)) (Constant 9)
      \<lparr>nextVar = 0, assignment = (\<lambda>v. 0), gates = []\<rparr> =
     Inr ((Constant 5, Constant 7, Constant 9),
          \<lparr>nextVar = 0, assignment = (\<lambda>v. 0), gates = []\<rparr>)"
  using compactMultiRangeCheck_roundtrip
          [of 5 7 9 "\<lparr>nextVar = 0, assignment = (\<lambda>v. 0), gates = []\<rparr>"]
  by simp

text \<open>
  Claim C8. On three constants, \<open>multiRangeCheck\<close> succeeds, adding nothing to the circuit,
  when each of them is in \<open>[0, 2^88)\<close>; when one of them is at least \<open>2^88\<close> it fails with
  a range violation that reports all three values.
\<close>

theorem multiRangeCheck_constants:
  "(0 \<le> x \<and> x < 2 ^ 88 \<and> 0 \<le> y \<and> y < 2 ^ 88 \<and> 0 \<le> z \<and> z < 2 ^ 88 \<longrightarrow>
      multiRangeCheck (Constant x, Constant y, Constant z) cs = Inr cs)
   \<and> (x \<ge> 2 ^ 88 \<or> y \<ge> 2 ^ 88 \<or> z \<ge> 2 ^ 88 \<longrightarrow>
      multiRangeCheck (Constant x, Constant y, Constant z) cs =
        Inl (RangeViolation [88] [Constant x, Constant y, Constant z]))"
proof -
  have e: "(2::int) ^ 88 = 2 ^ L" and l: "L = 88" by (simp_all add: L_def)
  have small: "drop_bit L v = 0" if "0 \<le> v" "v < 2 ^ 88" for v :: int
    using that unfolding e by (rule drop_bit_small)
  have large: "drop_bit L v \<noteq> 0" if "v \<ge> 2 ^ 88" for v :: int
    using that unfolding e by (rule drop_bit_large)
  show ?thesis
    using small large by (auto simp: multiRangeCheck_def l [symmetric])
qed

theorem multiRangeCheck_constants_witness:
  "multiRangeCheck (Constant 1, Constant 2, Constant (2 ^ 88 - 1))
      \<lparr>nextVar = 0, assignment = (\<lambda>v. 0), gates = []\<rparr> =
     Inr \<lparr>nextVar = 0, assignment = (\<lambda>v. 0), gates = []\<rparr>
   \<and> multiRangeCheck (Constant 1, Constant (2 ^ 88), Constant 3)
      \<lparr>nextVar = 0, assignment = (\<lambda>v. 0), gates = []\<rparr> =
     Inl (RangeViolation [88] [Constant 1, Constant (2 ^ 88), Constant 3])"
  using multiRangeCheck_constants
          [of 1 2 "2 ^ 88 - 1" "\<lparr>nextVar = 0, assignment = (\<lambda>v. 0), gates = []\<rparr>"]
        multiRangeCheck_constants
          [of 1 "2 ^ 88" 3 "\<lparr>nextVar = 0, assignment = (\<lambda>v. 0), gates = []\<rparr>"]
  by simp

subsection \<open>The gate-based path\<close>

lemma upt_from: "[n ..< n + k] = map (\<lambda>i. n + i) [0 ..< k]"
  by (induction k) simp_all

lemma exists_vars_fst:
  "fst (exists_vars vals cs) = map (\<lambda>i. Variable (nextVar cs + i)) [0 ..< length vals]"
  by (simp add: exists_vars_def upt_from)

lemma exists_vars_new:
  "k < length vals \<Longrightarrow> assignment (snd (exists_vars vals cs)) (nextVar cs + k) = vals ! k"
  by (simp add: exists_vars_def)

lemma exists_vars_old:
  "v < nextVar cs \<or> nextVar cs + length vals \<le> v \<Longrightarrow>
     assignment (snd (exists_vars vals cs)) v = assignment cs v"
  by (auto simp: exists_vars_def)

lemma exists_vars_nextVar:
  "nextVar (snd (exists_vars vals cs)) = nextVar cs + length vals"
  by (simp add: exists_vars_def)

lemma exists_vars_gates:
  "gates (snd (exists_vars vals cs)) = gates cs"
  by (simp add: exists_vars_def)

lemma exists_vars_toBigInt:
  assumes "allocated cs x"
  shows "toBigInt (snd (exists_vars vals cs)) x = toBigInt cs x"
  using assms by (cases x) (simp_all add: exists_vars_old)

lemma exists_vars_twice:
  fixes vals1 vals2 cs
  defines "cs2 \<equiv> snd (exists_vars vals2 (snd (exists_vars vals1 cs)))"
  shows "nextVar cs2 = nextVar cs + (length vals1 + length vals2)"
    and "gates cs2 = gates cs"
    and "map (\<lambda>k. assignment cs2 (nextVar cs + k)) [0 ..< length vals1 + length vals2]
          = vals1 @ vals2"
    and "\<forall>v. v < nextVar cs \<or> nextVar cs + (length vals1 + length vals2) \<le> v
           \<longrightarrow> assignment cs2 v = assignment cs v"
proof -
  show "nextVar cs2 = nextVar cs + (length vals1 + length vals2)"
    by (simp add: cs2_def exists_vars_nextVar)
  show "gates cs2 = gates cs"
    by (simp add: cs2_def exists_vars_gates)
  show "\<forall>v. v < nextVar cs \<or> nextVar cs + (length vals1 + length vals2) \<le> v
           \<longrightarrow> assignment cs2 v = assignment cs v"
    by (auto simp: cs2_def exists_vars_old exists_vars_nextVar)
  show "map (\<lambda>k. assignment cs2 (nextVar cs + k)) [0 ..< length vals1 + length vals2]
          = vals1 @ vals2"
  proof (rule nth_equalityI)
    show "length (map (\<lambda>k. assignment cs2 (nextVar cs + k)) [0 ..< length vals1 + length vals2])
        = length (vals1 @ vals2)"
      by simp
  next
    fix i
    assume "i < length (map (\<lambda>k. assignment cs2 (nextVar cs + k))
        [0 ..< length vals1 + length vals2])"
    then have i: "i < length vals1 + length vals2" by simp
    have "assignment cs2 (nextVar cs + i) = (vals1 @ vals2) ! i"
    proof (cases "i < length vals1")
      case True
      then have "assignment cs2 (nextVar cs + i)
          = assignment (snd (exists_vars vals1 cs)) (nextVar cs + i)"
        by (simp add: cs2_def exists_vars_old exists_vars_nextVar)
      then show ?thesis using True by (simp add: exists_vars_new nth_append)
    next
      case False
      then have "nextVar cs + i
          = nextVar (snd (exists_vars vals1 cs)) + (i - length vals1)"
        by (simp add: exists_vars_nextVar)
      moreover have "i - length vals1 < length vals2" using i False by simp
      ultimately have "assignment cs2 (nextVar cs + i) = vals2 ! (i - length vals1)"
        by (simp only: cs2_def exists_vars_new)
      then show ?thesis using False by (simp add: nth_append)
    qed
    then show "map (\<lambda>k. assignment cs2 (nextVar cs + k)) [0 ..< length vals1 + length vals2] ! i
        = (vals1 @ vals2) ! i"
      using i by simp
  qed
qed

lemma rangeCheck0Helper_unfold:
  assumes "allocated cs x"
  shows "rangeCheck0Helper x c cs =
    ((Variable (nextVar cs + 12), Variable (nextVar cs + 13)),
     addGate (RangeCheck0 x (map (\<lambda>k. Variable (nextVar cs + k)) [13, 12, 11, 10, 9, 8])
           (map (\<lambda>k. Variable (nextVar cs + k)) [7, 6, 5, 4, 3, 2, 1, 0]) c)
       (snd (exists_vars
           [bitSlice (toBigInt cs x) 16 12, bitSlice (toBigInt cs x) 28 12,
            bitSlice (toBigInt cs x) 40 12, bitSlice (toBigInt cs x) 52 12,
            bitSlice (toBigInt cs x) 64 12, bitSlice (toBigInt cs x) 76 12]
           (snd (exists_vars
             [bitSlice (toBigInt cs x) 0 2, bitSlice (toBigInt cs x) 2 2,
              bitSlice (toBigInt cs x) 4 2, bitSlice (toBigInt cs x) 6 2,
              bitSlice (toBigInt cs x) 8 2, bitSlice (toBigInt cs x) 10 2,
              bitSlice (toBigInt cs x) 12 2, bitSlice (toBigInt cs x) 14 2] cs)))))"
  unfolding rangeCheck0Helper_def Let_def split_beta
  by (simp add: exists_vars_toBigInt [OF assms] exists_vars_fst exists_vars_nextVar
      upt_rec eval_nat_numeral)

lemma rangeCheck0Helper_run:
  assumes "allocated cs x"
  shows "fst (rangeCheck0Helper x c cs) = (Variable (nextVar cs + 12), Variable (nextVar cs + 13))"
    and "nextVar (snd (rangeCheck0Helper x c cs)) = nextVar cs + 14"
    and "gates (snd (rangeCheck0Helper x c cs)) = gates cs @
        [RangeCheck0 x (map (\<lambda>k. Variable (nextVar cs + k)) [13, 12, 11, 10, 9, 8])
           (map (\<lambda>k. Variable (nextVar cs + k)) [7, 6, 5, 4, 3, 2, 1, 0]) c]"
    and "map (\<lambda>k. assignment (snd (rangeCheck0Helper x c cs)) (nextVar cs + k)) [0 ..< 14] =
         [bitSlice (toBigInt cs x) 0 2, bitSlice (toBigInt cs x) 2 2,
          bitSlice (toBigInt cs x) 4 2, bitSlice (toBigInt cs x) 6 2,
          bitSlice (toBigInt cs x) 8 2, bitSlice (toBigInt cs x) 10 2,
          bitSlice (toBigInt cs x) 12 2, bitSlice (toBigInt cs x) 14 2,
          bitSlice (toBigInt cs x) 16 12, bitSlice (toBigInt cs x) 28 12,
          bitSlice (toBigInt cs x) 40 12, bitSlice (toBigInt cs x) 52 12,
          bitSlice (toBigInt cs x) 64 12, bitSlice (toBigInt cs x) 76 12]"
    and "\<forall>v. v < nextVar cs \<or> nextVar cs + 14 \<le> v
           \<longrightarrow> assignment (snd (rangeCheck0Helper x c cs)) v = assignment cs v"
proof -
  define crumbs where "crumbs =
     [bitSlice (toBigInt cs x) 0 2, bitSlice (toBigInt cs x) 2 2,
      bitSlice (toBigInt cs x) 4 2, bitSlice (toBigInt cs x) 6 2,
      bitSlice (toBigInt cs x) 8 2, bitSlice (toBigInt cs x) 10 2,
      bitSlice (toBigInt cs x) 12 2, bitSlice (toBigInt cs x) 14 2]"
  define limbs where "limbs =
     [bitSlice (toBigInt cs x) 16 12, bitSlice (toBigInt cs x) 28 12,
      bitSlice (toBigInt cs x) 40 12, bitSlice (toBigInt cs x) 52 12,
      bitSlice (toBigInt cs x) 64 12, bitSlice (toBigInt cs x) 76 12]"
  define cs2 where "cs2 = snd (exists_vars limbs (snd (exists_vars crumbs cs)))"
  have len: "length crumbs = 8" "length limbs = 6" "length crumbs + length limbs = 14"
    by (simp_all add: crumbs_def limbs_def)
  have run: "rangeCheck0Helper x c cs =
    ((Variable (nextVar cs + 12), Variable (nextVar cs + 13)),
     addGate (RangeCheck0 x (map (\<lambda>k. Variable (nextVar cs + k)) [13, 12, 11, 10, 9, 8])
           (map (\<lambda>k. Variable (nextVar cs + k)) [7, 6, 5, 4, 3, 2, 1, 0]) c) cs2)"
    unfolding cs2_def crumbs_def limbs_def using assms by (rule rangeCheck0Helper_unfold)
  have two: "nextVar cs2 = nextVar cs + (length crumbs + length limbs)"
      "gates cs2 = gates cs"
      "map (\<lambda>k. assignment cs2 (nextVar cs + k)) [0 ..< length crumbs + length limbs]
          = crumbs @ limbs"
      "\<forall>v. v < nextVar cs \<or> nextVar cs + (length crumbs + length limbs) \<le> v
           \<longrightarrow> assignment cs2 v = assignment cs v"
    unfolding cs2_def by (rule exists_vars_twice)+
  show "fst (rangeCheck0Helper x c cs) = (Variable (nextVar cs + 12), Variable (nextVar cs + 13))"
    by (simp add: run)
  show "nextVar (snd (rangeCheck0Helper x c cs)) = nextVar cs + 14"
    using two(1) by (simp add: run addGate_def len)
  show "gates (snd (rangeCheck0Helper x c cs)) = gates cs @
        [RangeCheck0 x (map (\<lambda>k. Variable (nextVar cs + k)) [13, 12, 11, 10, 9, 8])
           (map (\<lambda>k. Variable (nextVar cs + k)) [7, 6, 5, 4, 3, 2, 1, 0]) c]"
    using two(2) by (simp add: run addGate_def)
  have "map (\<lambda>k. assignment (snd (rangeCheck0Helper x c cs)) (nextVar cs + k)) [0 ..< 14]
      = crumbs @ limbs"
    using two(3) unfolding len by (simp add: run addGate_def)
  then show "map (\<lambda>k. assignment (snd (rangeCheck0Helper x c cs)) (nextVar cs + k)) [0 ..< 14] =
         [bitSlice (toBigInt cs x) 0 2, bitSlice (toBigInt cs x) 2 2,
          bitSlice (toBigInt cs x) 4 2, bitSlice (toBigInt cs x) 6 2,
          bitSlice (toBigInt cs x) 8 2, bitSlice (toBigInt cs x) 10 2,
          bitSlice (toBigInt cs x) 12 2, bitSlice (toBigInt cs x) 14 2,
          bitSlice (toBigInt cs x) 16 12, bitSlice (toBigInt cs x) 28 12,
          bitSlice (toBigInt cs x) 40 12, bitSlice (toBigInt cs x) 52 12,
          bitSlice (toBigInt cs x) 64 12, bitSlice (toBigInt cs x) 76 12]"
    by (simp only: crumbs_def limbs_def append.simps)
  show "\<forall>v. v < nextVar cs \<or> nextVar cs + 14 \<le> v
           \<longrightarrow> assignment (snd (rangeCheck0Helper x c cs)) v = assignment cs v"
    using two(4) unfolding len by (simp add: run addGate_def)
qed

lemma rangeCheck1Helper_unfold:
  assumes "allocated cs z"
  shows "rangeCheck1Helper x64 x76 y64 y76 z yz cs =
     addGate (RangeCheck1 z yz
         (map (\<lambda>k. Variable (nextVar cs + k)) [12, 11, 10, 9, 8, 7, 6, 5, 4, 3, 2, 1, 0])
         (map (\<lambda>k. Variable (nextVar cs + k)) [23, 22, 21] @ [x76, x64, y76, y64]
            @ map (\<lambda>k. Variable (nextVar cs + k)) [20, 19, 18, 17, 16, 15, 14, 13]))
       (snd (exists_vars
           [bitSlice (toBigInt cs z) 0 2, bitSlice (toBigInt cs z) 2 2,
            bitSlice (toBigInt cs z) 4 2, bitSlice (toBigInt cs z) 6 2,
            bitSlice (toBigInt cs z) 8 2, bitSlice (toBigInt cs z) 10 2,
            bitSlice (toBigInt cs z) 12 2, bitSlice (toBigInt cs z) 14 2,
            bitSlice (toBigInt cs z) 16 2, bitSlice (toBigInt cs z) 18 2,
            bitSlice (toBigInt cs z) 20 2]
           (snd (exists_vars
             [bitSlice (toBigInt cs z) 22 2, bitSlice (toBigInt cs z) 24 2,
              bitSlice (toBigInt cs z) 26 2, bitSlice (toBigInt cs z) 28 2,
              bitSlice (toBigInt cs z) 30 2, bitSlice (toBigInt cs z) 32 2,
              bitSlice (toBigInt cs z) 34 2, bitSlice (toBigInt cs z) 36 2,
              bitSlice (toBigInt cs z) 38 12, bitSlice (toBigInt cs z) 50 12,
              bitSlice (toBigInt cs z) 62 12, bitSlice (toBigInt cs z) 74 12,
              bitSlice (toBigInt cs z) 86 2] cs))))"
  unfolding rangeCheck1Helper_def Let_def split_beta
  by (simp add: exists_vars_toBigInt [OF assms] exists_vars_fst exists_vars_nextVar
      upt_rec eval_nat_numeral)

lemma rangeCheck1Helper_run:
  assumes "allocated cs z"
  shows "nextVar (rangeCheck1Helper x64 x76 y64 y76 z yz cs) = nextVar cs + 24"
    and "gates (rangeCheck1Helper x64 x76 y64 y76 z yz cs) = gates cs @
       [RangeCheck1 z yz
         (map (\<lambda>k. Variable (nextVar cs + k)) [12, 11, 10, 9, 8, 7, 6, 5, 4, 3, 2, 1, 0])
         (map (\<lambda>k. Variable (nextVar cs + k)) [23, 22, 21] @ [x76, x64, y76, y64]
            @ map (\<lambda>k. Variable (nextVar cs + k)) [20, 19, 18, 17, 16, 15, 14, 13])]"
    and "map (\<lambda>k. assignment (rangeCheck1Helper x64 x76 y64 y76 z yz cs) (nextVar cs + k))
           [0 ..< 24] =
         [bitSlice (toBigInt cs z) 22 2, bitSlice (toBigInt cs z) 24 2,
          bitSlice (toBigInt cs z) 26 2, bitSlice (toBigInt cs z) 28 2,
          bitSlice (toBigInt cs z) 30 2, bitSlice (toBigInt cs z) 32 2,
          bitSlice (toBigInt cs z) 34 2, bitSlice (toBigInt cs z) 36 2,
          bitSlice (toBigInt cs z) 38 12, bitSlice (toBigInt cs z) 50 12,
          bitSlice (toBigInt cs z) 62 12, bitSlice (toBigInt cs z) 74 12,
          bitSlice (toBigInt cs z) 86 2,
          bitSlice (toBigInt cs z) 0 2, bitSlice (toBigInt cs z) 2 2,
          bitSlice (toBigInt cs z) 4 2, bitSlice (toBigInt cs z) 6 2,
          bitSlice (toBigInt cs z) 8 2, bitSlice (toBigInt cs z) 10 2,
          bitSlice (toBigInt cs z) 12 2, bitSlice (toBigInt cs z) 14 2,
          bitSlice (toBigInt cs z) 16 2, bitSlice (toBigInt cs z) 18 2,
          bitSlice (toBigInt cs z) 20 2]"
    and "\<forall>v. v < nextVar cs \<or> nextVar cs + 24 \<le> v
           \<longrightarrow> assignment (rangeCheck1Helper x64 x76 y64 y76 z yz cs) v = assignment cs v"
proof -
  define cur where "cur =
     [bitSlice (toBigInt cs z) 22 2, bitSlice (toBigInt cs z) 24 2,
      bitSlice (toBigInt cs z) 26 2, bitSlice (toBigInt cs z) 28 2,
      bitSlice (toBigInt cs z) 30 2, bitSlice (toBigInt cs z) 32 2,
      bitSlice (toBigInt cs z) 34 2, bitSlice (toBigInt cs z) 36 2,
      bitSlice (toBigInt cs z) 38 12, bitSlice (toBigInt cs z) 50 12,
      bitSlice (toBigInt cs z) 62 12, bitSlice (toBigInt cs z) 74 12,
      bitSlice (toBigInt cs z) 86 2]"
  define nxt where "nxt =
     [bitSlice (toBigInt cs z) 0 2, bitSlice (toBigInt cs z) 2 2,
      bitSlice (toBigInt cs z) 4 2, bitSlice (toBigInt cs z) 6 2,
      bitSlice (toBigInt cs z) 8 2, bitSlice (toBigInt cs z) 10 2,
      bitSlice (toBigInt cs z) 12 2, bitSlice (toBigInt cs z) 14 2,
      bitSlice (toBigInt cs z) 16 2, bitSlice (toBigInt cs z) 18 2,
      bitSlice (toBigInt cs z) 20 2]"
  define cs2 where "cs2 = snd (exists_vars nxt (snd (exists_vars cur cs)))"
  have len: "length cur = 13" "length nxt = 11" "length cur + length nxt = 24"
    by (simp_all add: cur_def nxt_def)
  have run: "rangeCheck1Helper x64 x76 y64 y76 z yz cs =
     addGate (RangeCheck1 z yz
         (map (\<lambda>k. Variable (nextVar cs + k)) [12, 11, 10, 9, 8, 7, 6, 5, 4, 3, 2, 1, 0])
         (map (\<lambda>k. Variable (nextVar cs + k)) [23, 22, 21] @ [x76, x64, y76, y64]
            @ map (\<lambda>k. Variable (nextVar cs + k)) [20, 19, 18, 17, 16, 15, 14, 13])) cs2"
    unfolding cs2_def cur_def nxt_def using assms by (rule rangeCheck1Helper_unfold)
  have two: "nextVar cs2 = nextVar cs + (length cur + length nxt)"
      "gates cs2 = gates cs"
      "map (\<lambda>k. assignment cs2 (nextVar cs + k)) [0 ..< length cur + length nxt] = cur @ nxt"
      "\<forall>v. v < nextVar cs \<or> nextVar cs + (length cur + length nxt) \<le> v
           \<longrightarrow> assignment cs2 v = assignment cs v"
    unfolding cs2_def by (rule exists_vars_twice)+
  show "nextVar (rangeCheck1Helper x64 x76 y64 y76 z yz cs) = nextVar cs + 24"
    using two(1) by (simp add: run addGate_def len)
  show "gates (rangeCheck1Helper x64 x76 y64 y76 z yz cs) = gates cs @
       [RangeCheck1 z yz
         (map (\<lambda>k. Variable (nextVar cs + k)) [12, 11, 10, 9, 8, 7, 6, 5, 4, 3, 2, 1, 0])
         (map (\<lambda>k. Variable (nextVar cs + k)) [23, 22, 21] @ [x76, x64, y76, y64]
            @ map (\<lambda>k. Variable (nextVar cs + k)) [20, 19, 18, 17, 16, 15, 14, 13])]"
    using two(2) by (simp add: run addGate_def)
  have "map (\<lambda>k. assignment (rangeCheck1Helper x64 x76 y64 y76 z yz cs) (nextVar cs + k))
           [0 ..< 24] = cur @ nxt"
    using two(3) unfolding len by (simp add: run addGate_def)
  then show "map (\<lambda>k. assignment (rangeCheck1Helper x64 x76 y64 y76 z yz cs) (nextVar cs + k))
           [0 ..< 24] =
         [bitSlice (toBigInt cs z) 22 2, bitSlice (toBigInt cs z) 24 2,
          bitSlice (toBigInt cs z) 26 2, bitSlice (toBigInt cs z) 28 2,
          bitSlice (toBigInt cs z) 30 2, bitSlice (toBigInt cs z) 32 2,
          bitSlice (toBigInt cs z) 34 2, bitSlice (toBigInt cs z) 36 2,
          bitSlice (toBigInt cs z) 38 12, bitSlice (toBigInt cs z) 50 12,
          bitSlice (toBigInt cs z) 62 12, bitSlice (toBigInt cs z) 74 12,
          bitSlice (toBigInt cs z) 86 2,
          bitSlice (toBigInt cs z) 0 2, bitSlice (toBigInt cs z) 2 2,
          bitSlice (toBigInt cs z) 4 2, bitSlice (toBigInt cs z) 6 2,
          bitSlice (toBigInt cs z) 8 2, bitSlice (toBigInt cs z) 10 2,
          bitSlice (toBigInt cs z) 12 2, bitSlice (toBigInt cs z) 14 2,
          bitSlice (toBigInt cs z) 16 2, bitSlice (toBigInt cs z) 18 2,
          bitSlice (toBigInt cs z) 20 2]"
    by (simp only: cur_def nxt_def append.simps)
  show "\<forall>v. v < nextVar cs \<or> nextVar cs + 24 \<le> v
           \<longrightarrow> assignment (rangeCheck1Helper x64 x76 y64 y76 z yz cs) v = assignment cs v"
    using two(4) unfolding len by (simp add: run addGate_def)
qed

lemma allocated_later:
  assumes "allocated cs x" and "nextVar cs \<le> nextVar cs'"
    and "\<forall>v. v < nextVar cs \<longrightarrow> assignment cs' v = assignment cs v"
  shows "allocated cs' x" and "toBigInt cs' x = toBigInt cs x"
  using assms by (cases x; simp)+

text \<open>
  Claim C10. \<open>multiRangeCheck\<close> takes the immediate bound check only when all three inputs
  are constants: there it either leaves the circuit untouched or fails. As soon as one
  input is a variable it never fails, whatever the constants among the inputs are, also
  when one is \<open>2^88\<close> or more: all three inputs go through the decomposition. On inputs
  that are constants or variables of the circuit it introduces 52 witnesses: the 8 crumbs
  and the 6 limbs of 12 bits of \<open>x\<close>, those of \<open>y\<close>, and the 24 crumbs and limbs of \<open>z\<close>,
  each the bit slice of its input. It appends three gates:
  \<open>rangeCheck0\<close> on \<open>x\<close> and on \<open>y\<close> with their limbs and crumbs, not compact, and
  \<open>rangeCheck1\<close> on \<open>z\<close> with \<open>yz = 0\<close>, which carries the two highest limbs of \<open>x\<close> and
  of \<open>y\<close>. No other variable changes.
\<close>

theorem multiRangeCheck_paths:
  "(isConstant x \<and> isConstant y \<and> isConstant z \<longrightarrow>
      multiRangeCheck (x, y, z) cs = Inr cs
      \<or> multiRangeCheck (x, y, z) cs = Inl (RangeViolation [88] [x, y, z]))
   \<and> (\<not> (isConstant x \<and> isConstant y \<and> isConstant z) \<longrightarrow>
      (\<exists>cs'. multiRangeCheck (x, y, z) cs = Inr cs'))
   \<and> (\<not> (isConstant x \<and> isConstant y \<and> isConstant z)
       \<and> allocated cs x \<and> allocated cs y \<and> allocated cs z \<longrightarrow>
      (\<exists>cs'. multiRangeCheck (x, y, z) cs = Inr cs'
         \<and> nextVar cs' = nextVar cs + 52
         \<and> gates cs' = gates cs @
             [RangeCheck0 x
                (map (\<lambda>k. Variable (nextVar cs + k)) [13, 12, 11, 10, 9, 8])
                (map (\<lambda>k. Variable (nextVar cs + k)) [7, 6, 5, 4, 3, 2, 1, 0]) False,
              RangeCheck0 y
                (map (\<lambda>k. Variable (nextVar cs + k)) [27, 26, 25, 24, 23, 22])
                (map (\<lambda>k. Variable (nextVar cs + k)) [21, 20, 19, 18, 17, 16, 15, 14]) False,
              RangeCheck1 z (Constant 0)
                (map (\<lambda>k. Variable (nextVar cs + k))
                   [40, 39, 38, 37, 36, 35, 34, 33, 32, 31, 30, 29, 28])
                (map (\<lambda>k. Variable (nextVar cs + k))
                   [51, 50, 49, 13, 12, 27, 26, 48, 47, 46, 45, 44, 43, 42, 41])]
         \<and> map (\<lambda>k. assignment cs' (nextVar cs + k)) [0 ..< 14] =
             [bitSlice (toBigInt cs x) 0 2, bitSlice (toBigInt cs x) 2 2,
              bitSlice (toBigInt cs x) 4 2, bitSlice (toBigInt cs x) 6 2,
              bitSlice (toBigInt cs x) 8 2, bitSlice (toBigInt cs x) 10 2,
              bitSlice (toBigInt cs x) 12 2, bitSlice (toBigInt cs x) 14 2,
              bitSlice (toBigInt cs x) 16 12, bitSlice (toBigInt cs x) 28 12,
              bitSlice (toBigInt cs x) 40 12, bitSlice (toBigInt cs x) 52 12,
              bitSlice (toBigInt cs x) 64 12, bitSlice (toBigInt cs x) 76 12]
         \<and> map (\<lambda>k. assignment cs' (nextVar cs + 14 + k)) [0 ..< 14] =
             [bitSlice (toBigInt cs y) 0 2, bitSlice (toBigInt cs y) 2 2,
              bitSlice (toBigInt cs y) 4 2, bitSlice (toBigInt cs y) 6 2,
              bitSlice (toBigInt cs y) 8 2, bitSlice (toBigInt cs y) 10 2,
              bitSlice (toBigInt cs y) 12 2, bitSlice (toBigInt cs y) 14 2,
              bitSlice (toBigInt cs y) 16 12, bitSlice (toBigInt cs y) 28 12,
              bitSlice (toBigInt cs y) 40 12, bitSlice (toBigInt cs y) 52 12,
              bitSlice (toBigInt cs y) 64 12, bitSlice (toBigInt cs y) 76 12]
         \<and> map (\<lambda>k. assignment cs' (nextVar cs + 28 + k)) [0 ..< 24] =
             [bitSlice (toBigInt cs z) 22 2, bitSlice (toBigInt cs z) 24 2,
              bitSlice (toBigInt cs z) 26 2, bitSlice (toBigInt cs z) 28 2,
              bitSlice (toBigInt cs z) 30 2, bitSlice (toBigInt cs z) 32 2,
              bitSlice (toBigInt cs z) 34 2, bitSlice (toBigInt cs z) 36 2,
              bitSlice (toBigInt cs z) 38 12, bitSlice (toBigInt cs z) 50 12,
              bitSlice (toBigInt cs z) 62 12, bitSlice (toBigInt cs z) 74 12,
              bitSlice (toBigInt cs z) 86 2,
              bitSlice (toBigInt cs z) 0 2, bitSlice (toBigInt cs z) 2 2,
              bitSlice (toBigInt cs z) 4 2, bitSlice (toBigInt cs z) 6 2,
              bitSlice (toBigInt cs z) 8 2, bitSlice (toBigInt cs z) 10 2,
              bitSlice (toBigInt cs z) 12 2, bitSlice (toBigInt cs z) 14 2,
              bitSlice (toBigInt cs z) 16 2, bitSlice (toBigInt cs z) 18 2,
              bitSlice (toBigInt cs z) 20 2]
         \<and> (\<forall>v. v < nextVar cs \<or> nextVar cs + 52 \<le> v
               \<longrightarrow> assignment cs' v = assignment cs v)))"
proof (intro conjI impI)
  assume "isConstant x \<and> isConstant y \<and> isConstant z"
  then show "multiRangeCheck (x, y, z) cs = Inr cs
      \<or> multiRangeCheck (x, y, z) cs = Inl (RangeViolation [88] [x, y, z])"
    by (simp add: multiRangeCheck_def L_def)
next
  assume "\<not> (isConstant x \<and> isConstant y \<and> isConstant z)"
  then show "\<exists>cs'. multiRangeCheck (x, y, z) cs = Inr cs'"
    by (auto simp: multiRangeCheck_def split: prod.splits)
next
  assume a: "\<not> (isConstant x \<and> isConstant y \<and> isConstant z)
       \<and> allocated cs x \<and> allocated cs y \<and> allocated cs z"
  then have nc: "\<not> (isConstant x \<and> isConstant y \<and> isConstant z)"
    and ax: "allocated cs x" and ay: "allocated cs y" and az: "allocated cs z"
    by simp_all
  define cs1 where "cs1 = snd (rangeCheck0Helper x False cs)"
  define cs2 where "cs2 = snd (rangeCheck0Helper y False cs1)"
  define cs3 where "cs3 = rangeCheck1Helper (Variable (nextVar cs + 12)) (Variable (nextVar cs + 13))
      (Variable (nextVar cs1 + 12)) (Variable (nextVar cs1 + 13)) z (Constant 0) cs2"
  note x = rangeCheck0Helper_run [OF ax, of False, folded cs1_def]
  have ay1: "allocated cs1 y" and y1: "toBigInt cs1 y = toBigInt cs y"
    using allocated_later [OF ay, of cs1] x(2,5) by simp_all
  have az1: "allocated cs1 z" and z1: "toBigInt cs1 z = toBigInt cs z"
    using allocated_later [OF az, of cs1] x(2,5) by simp_all
  note y = rangeCheck0Helper_run [OF ay1, of False, folded cs2_def]
  have az2: "allocated cs2 z" and z2: "toBigInt cs2 z = toBigInt cs z"
    using allocated_later [OF az1, of cs2] y(2,5) z1 by simp_all
  note z = rangeCheck1Helper_run [OF az2, of "Variable (nextVar cs + 12)"
      "Variable (nextVar cs + 13)" "Variable (nextVar cs1 + 12)" "Variable (nextVar cs1 + 13)"
      "Constant 0", folded cs3_def]
  have n1: "nextVar cs1 = nextVar cs + 14" by (rule x(2))
  have n2: "nextVar cs2 = nextVar cs + 28" using y(2) n1 by simp
  have run: "multiRangeCheck (x, y, z) cs = Inr cs3"
    using nc x(1) y(1)
    by (auto simp: multiRangeCheck_def cs3_def cs2_def cs1_def split: prod.splits)
  have next3: "nextVar cs3 = nextVar cs + 52" using z(1) n2 by simp
  have gates3: "gates cs3 = gates cs @
             [RangeCheck0 x
                (map (\<lambda>k. Variable (nextVar cs + k)) [13, 12, 11, 10, 9, 8])
                (map (\<lambda>k. Variable (nextVar cs + k)) [7, 6, 5, 4, 3, 2, 1, 0]) False,
              RangeCheck0 y
                (map (\<lambda>k. Variable (nextVar cs + k)) [27, 26, 25, 24, 23, 22])
                (map (\<lambda>k. Variable (nextVar cs + k)) [21, 20, 19, 18, 17, 16, 15, 14]) False,
              RangeCheck1 z (Constant 0)
                (map (\<lambda>k. Variable (nextVar cs + k))
                   [40, 39, 38, 37, 36, 35, 34, 33, 32, 31, 30, 29, 28])
                (map (\<lambda>k. Variable (nextVar cs + k))
                   [51, 50, 49, 13, 12, 27, 26, 48, 47, 46, 45, 44, 43, 42, 41])]"
    by (simp add: z(2) y(3) x(3) n1 n2)
  have keep2: "assignment cs3 v = assignment cs2 v" if "v < nextVar cs + 28" for v
    using z(4) that n2 by simp
  have keep1: "assignment cs2 v = assignment cs1 v" if "v < nextVar cs + 14" for v
    using y(5) that n1 by simp
  have "map (\<lambda>k. assignment cs3 (nextVar cs + k)) [0 ..< 14]
      = map (\<lambda>k. assignment cs1 (nextVar cs + k)) [0 ..< 14]"
    by (rule map_cong) (simp_all add: keep1 keep2)
  then have vals_x: "map (\<lambda>k. assignment cs3 (nextVar cs + k)) [0 ..< 14] =
             [bitSlice (toBigInt cs x) 0 2, bitSlice (toBigInt cs x) 2 2,
              bitSlice (toBigInt cs x) 4 2, bitSlice (toBigInt cs x) 6 2,
              bitSlice (toBigInt cs x) 8 2, bitSlice (toBigInt cs x) 10 2,
              bitSlice (toBigInt cs x) 12 2, bitSlice (toBigInt cs x) 14 2,
              bitSlice (toBigInt cs x) 16 12, bitSlice (toBigInt cs x) 28 12,
              bitSlice (toBigInt cs x) 40 12, bitSlice (toBigInt cs x) 52 12,
              bitSlice (toBigInt cs x) 64 12, bitSlice (toBigInt cs x) 76 12]"
    by (simp only: x(4))
  have "map (\<lambda>k. assignment cs3 (nextVar cs + 14 + k)) [0 ..< 14]
      = map (\<lambda>k. assignment cs2 (nextVar cs1 + k)) [0 ..< 14]"
    by (rule map_cong) (simp_all add: keep2 n1)
  then have vals_y: "map (\<lambda>k. assignment cs3 (nextVar cs + 14 + k)) [0 ..< 14] =
             [bitSlice (toBigInt cs y) 0 2, bitSlice (toBigInt cs y) 2 2,
              bitSlice (toBigInt cs y) 4 2, bitSlice (toBigInt cs y) 6 2,
              bitSlice (toBigInt cs y) 8 2, bitSlice (toBigInt cs y) 10 2,
              bitSlice (toBigInt cs y) 12 2, bitSlice (toBigInt cs y) 14 2,
              bitSlice (toBigInt cs y) 16 12, bitSlice (toBigInt cs y) 28 12,
              bitSlice (toBigInt cs y) 40 12, bitSlice (toBigInt cs y) 52 12,
              bitSlice (toBigInt cs y) 64 12, bitSlice (toBigInt cs y) 76 12]"
    by (simp only: y(4) y1)
  have "map (\<lambda>k. assignment cs3 (nextVar cs + 28 + k)) [0 ..< 24]
      = map (\<lambda>k. assignment cs3 (nextVar cs2 + k)) [0 ..< 24]"
    by (simp only: n2)
  then have vals_z: "map (\<lambda>k. assignment cs3 (nextVar cs + 28 + k)) [0 ..< 24] =
             [bitSlice (toBigInt cs z) 22 2, bitSlice (toBigInt cs z) 24 2,
              bitSlice (toBigInt cs z) 26 2, bitSlice (toBigInt cs z) 28 2,
              bitSlice (toBigInt cs z) 30 2, bitSlice (toBigInt cs z) 32 2,
              bitSlice (toBigInt cs z) 34 2, bitSlice (toBigInt cs z) 36 2,
              bitSlice (toBigInt cs z) 38 12, bitSlice (toBigInt cs z) 50 12,
              bitSlice (toBigInt cs z) 62 12, bitSlice (toBigInt cs z) 74 12,
              bitSlice (toBigInt cs z) 86 2,
              bitSlice (toBigInt cs z) 0 2, bitSlice (toBigInt cs z) 2 2,
              bitSlice (toBigInt cs z) 4 2, bitSlice (toBigInt cs z) 6 2,
              bitSlice (toBigInt cs z) 8 2, bitSlice (toBigInt cs z) 10 2,
              bitSlice (toBigInt cs z) 12 2, bitSlice (toBigInt cs z) 14 2,
              bitSlice (toBigInt cs z) 16 2, bitSlice (toBigInt cs z) 18 2,
              bitSlice (toBigInt cs z) 20 2]"
    by (simp only: z(3) z2)
  have frame: "\<forall>v. v < nextVar cs \<or> nextVar cs + 52 \<le> v \<longrightarrow> assignment cs3 v = assignment cs v"
    using z(4) y(5) x(5) n1 n2 by auto
  show "\<exists>cs'. multiRangeCheck (x, y, z) cs = Inr cs'
         \<and> nextVar cs' = nextVar cs + 52
         \<and> gates cs' = gates cs @
             [RangeCheck0 x
                (map (\<lambda>k. Variable (nextVar cs + k)) [13, 12, 11, 10, 9, 8])
                (map (\<lambda>k. Variable (nextVar cs + k)) [7, 6, 5, 4, 3, 2, 1, 0]) False,
              RangeCheck0 y
                (map (\<lambda>k. Variable (nextVar cs + k)) [27, 26, 25, 24, 23, 22])
                (map (\<lambda>k. Variable (nextVar cs + k)) [21, 20, 19, 18, 17, 16, 15, 14]) False,
              RangeCheck1 z (Constant 0)
                (map (\<lambda>k. Variable (nextVar cs + k))
                   [40, 39, 38, 37, 36, 35, 34, 33, 32, 31, 30, 29, 28])
                (map (\<lambda>k. Variable (nextVar cs + k))
                   [51, 50, 49, 13, 12, 27, 26, 48, 47, 46, 45, 44, 43, 42, 41])]
         \<and> map (\<lambda>k. assignment cs' (nextVar cs + k)) [0 ..< 14] =
             [bitSlice (toBigInt cs x) 0 2, bitSlice (toBigInt cs x) 2 2,
              bitSlice (toBigInt cs x) 4 2, bitSlice (toBigInt cs x) 6 2,
              bitSlice (toBigInt cs x) 8 2, bitSlice (toBigInt cs x) 10 2,
              bitSlice (toBigInt cs x) 12 2, bitSlice (toBigInt cs x) 14 2,
              bitSlice (toBigInt cs x) 16 12, bitSlice (toBigInt cs x) 28 12,
              bitSlice (toBigInt cs x) 40 12, bitSlice (toBigInt cs x) 52 12,
              bitSlice (toBigInt cs x) 64 12, bitSlice (toBigInt cs x) 76 12]
         \<and> map (\<lambda>k. assignment cs' (nextVar cs + 14 + k)) [0 ..< 14] =
             [bitSlice (toBigInt cs y) 0 2, bitSlice (toBigInt cs y) 2 2,
              bitSlice (toBigInt cs y) 4 2, bitSlice (toBigInt cs y) 6 2,
              bitSlice (toBigInt cs y) 8 2, bitSlice (toBigInt cs y) 10 2,
              bitSlice (toBigInt cs y) 12 2, bitSlice (toBigInt cs y) 14 2,
              bitSlice (toBigInt cs y) 16 12, bitSlice (toBigInt cs y) 28 12,
              bitSlice (toBigInt cs y) 40 12, bitSlice (toBigInt cs y) 52 12,
              bitSlice (toBigInt cs y) 64 12, bitSlice (toBigInt cs y) 76 12]
         \<and> map (\<lambda>k. assignment cs' (nextVar cs + 28 + k)) [0 ..< 24] =
             [bitSlice (toBigInt cs z) 22 2, bitSlice (toBigInt cs z) 24 2,
              bitSlice (toBigInt cs z) 26 2, bitSlice (toBigInt cs z) 28 2,
              bitSlice (toBigInt cs z) 30 2, bitSlice (toBigInt cs z) 32 2,
              bitSlice (toBigInt cs z) 34 2, bitSlice (toBigInt cs z) 36 2,
              bitSlice (toBigInt cs z) 38 12, bitSlice (toBigInt cs z) 50 12,
              bitSlice (toBigInt cs z) 62 12, bitSlice (toBigInt cs z) 74 12,
              bitSlice (toBigInt cs z) 86 2,
              bitSlice (toBigInt cs z) 0 2, bitSlice (toBigInt cs z) 2 2,
              bitSlice (toBigInt cs z) 4 2, bitSlice (toBigInt cs z) 6 2,
              bitSlice (toBigInt cs z) 8 2, bitSlice (toBigInt cs z) 10 2,
              bitSlice (toBigInt cs z) 12 2, bitSlice (toBigInt cs z) 14 2,
              bitSlice (toBigInt cs z) 16 2, bitSlice (toBigInt cs z) 18 2,
              bitSlice (toBigInt cs z) 20 2]
         \<and> (\<forall>v. v < nextVar cs \<or> nextVar cs + 52 \<le> v
               \<longrightarrow> assignment cs' v = assignment cs v)"
    using run next3 gates3 vals_x vals_y vals_z frame
    by (intro exI [of _ cs3] conjI)
qed

theorem multiRangeCheck_paths_witness:
  "(multiRangeCheck (Constant 1, Constant 2, Constant 3)
        \<lparr>nextVar = 1, assignment = (\<lambda>v. 5), gates = []\<rparr> =
      Inr \<lparr>nextVar = 1, assignment = (\<lambda>v. 5), gates = []\<rparr>
    \<or> multiRangeCheck (Constant 1, Constant 2, Constant 3)
        \<lparr>nextVar = 1, assignment = (\<lambda>v. 5), gates = []\<rparr> =
      Inl (RangeViolation [88] [Constant 1, Constant 2, Constant 3]))
   \<and> (\<exists>cs'.
      multiRangeCheck (Constant (2 ^ 88 + 3), Variable 0, Constant (2 ^ 40))
        \<lparr>nextVar = 1, assignment = (\<lambda>v. 5), gates = []\<rparr> = Inr cs'
      \<and> nextVar cs' = 53
      \<and> gates cs' =
          [RangeCheck0 (Constant (2 ^ 88 + 3))
             (map (\<lambda>k. Variable (1 + k)) [13, 12, 11, 10, 9, 8])
             (map (\<lambda>k. Variable (1 + k)) [7, 6, 5, 4, 3, 2, 1, 0]) False,
           RangeCheck0 (Variable 0)
             (map (\<lambda>k. Variable (1 + k)) [27, 26, 25, 24, 23, 22])
             (map (\<lambda>k. Variable (1 + k)) [21, 20, 19, 18, 17, 16, 15, 14]) False,
           RangeCheck1 (Constant (2 ^ 40)) (Constant 0)
             (map (\<lambda>k. Variable (1 + k)) [40, 39, 38, 37, 36, 35, 34, 33, 32, 31, 30, 29, 28])
             (map (\<lambda>k. Variable (1 + k))
                [51, 50, 49, 13, 12, 27, 26, 48, 47, 46, 45, 44, 43, 42, 41])]
      \<and> map (\<lambda>k. assignment cs' (1 + k)) [0 ..< 14] =
          [3, 0, 0, 0, 0, 0, 0, 0, 0, 0, 0, 0, 0, 0]
      \<and> map (\<lambda>k. assignment cs' (1 + 14 + k)) [0 ..< 14] =
          [1, 1, 0, 0, 0, 0, 0, 0, 0, 0, 0, 0, 0, 0]
      \<and> map (\<lambda>k. assignment cs' (1 + 28 + k)) [0 ..< 24] =
          [0, 0, 0, 0, 0, 0, 0, 0, 4, 0, 0, 0, 0, 0, 0, 0, 0, 0, 0, 0, 0, 0, 0, 0]
      \<and> (\<forall>v. v < 1 \<or> 1 + 52 \<le> v \<longrightarrow> assignment cs' v = 5))"
  using multiRangeCheck_paths
          [of "Constant 1" "Constant 2" "Constant 3"
              "\<lparr>nextVar = 1, assignment = (\<lambda>v. 5), gates = []\<rparr>"]
        multiRangeCheck_paths
          [of "Constant (2 ^ 88 + 3)" "Variable 0" "Constant (2 ^ 40)"
              "\<lparr>nextVar = 1, assignment = (\<lambda>v. 5), gates = []\<rparr>"]
  by (simp add: bitSlice_def)

section \<open>Properties of the low-node search\<close>

subsection \<open>Exact arithmetic below \<open>2^53\<close>\<close>

lemma round_double_exact: "\<bar>x\<bar> < 2 ^ 53 \<Longrightarrow> round_double x = Finite x"
  by (simp add: round_double_def)

lemma round_double_at_limit:
  "round_double (2 ^ 53) = Finite (2 ^ 53)" "round_double (2 ^ 53 + 1) = Finite (2 ^ 53)"
  by code_simp+

lemma half_ceiling: "\<lceil>real_of_int s / 2\<rceil> = (s + 1) div 2"
  by linarith

lemma midpoint_exact:
  assumes "0 \<le> iLow" "iLow < iHigh" "iHigh \<le> 2 ^ 52"
  shows "ceil_half (num_add (Finite iLow) (Finite iHigh)) = Finite ((iLow + iHigh + 1) div 2)"
proof -
  have "\<bar>iLow + iHigh\<bar> < 2 ^ 53" using assms by simp
  then have "num_add (Finite iLow) (Finite iHigh) = Finite (iLow + iHigh)"
    by (simp add: round_double_exact)
  then show ?thesis by (simp only: ceil_half.simps half_ceiling)
qed

lemma num_pred_exact:
  assumes "0 \<le> m" "m \<le> 2 ^ 53"
  shows "num_pred (Finite m) = Finite (m - 1)"
proof -
  have "\<bar>m - 1\<bar> < 2 ^ 53" using assms by simp
  then show ?thesis by (simp add: round_double_exact)
qed

lemma midpoint_between:
  fixes iLow iHigh :: int
  assumes "iLow < iHigh"
  shows "iLow < (iLow + iHigh + 1) div 2" and "(iLow + iHigh + 1) div 2 \<le> iHigh"
  using assms by linarith+

lemma midpoint_width:
  fixes iLow iHigh :: int
  assumes "iLow < iHigh"
  shows "iHigh - (iLow + iHigh + 1) div 2 \<le> (iHigh - iLow) div 2"
    and "(iLow + iHigh + 1) div 2 - 1 - iLow \<le> (iHigh - iLow) div 2"
  using assms by linarith+

subsection \<open>The loop on intervals below \<open>2^52\<close>\<close>

lemma bisect_loop_return:
  "bisect_loop t S (Finite i) (Finite i) =
     Some \<lparr>lowIndex = Finite i, foundValue = (S (Finite i) = t)\<rparr>"
  by (subst bisect_loop.simps) simp

lemma loop_step_exact:
  assumes "0 \<le> iLow" "iLow < iHigh" "iHigh \<le> 2 ^ 52"
  shows "ceil_half (num_add (Finite iLow) (Finite iHigh)) = Finite ((iLow + iHigh + 1) div 2)"
    and "num_pred (Finite ((iLow + iHigh + 1) div 2)) = Finite ((iLow + iHigh + 1) div 2 - 1)"
    and "\<not> strict_equal (Finite iHigh) (Finite iLow)"
proof -
  show "ceil_half (num_add (Finite iLow) (Finite iHigh)) = Finite ((iLow + iHigh + 1) div 2)"
    using assms by (rule midpoint_exact)
  have "(iLow + iHigh + 1) div 2 \<le> iHigh"
    using assms(2) by (rule midpoint_between)
  then have "0 \<le> (iLow + iHigh + 1) div 2" "(iLow + iHigh + 1) div 2 \<le> 2 ^ 53"
    using assms by simp_all
  then show "num_pred (Finite ((iLow + iHigh + 1) div 2)) = Finite ((iLow + iHigh + 1) div 2 - 1)"
    by (rule num_pred_exact)
  show "\<not> strict_equal (Finite iHigh) (Finite iLow)"
    using assms(2) by simp
qed

lemma bisect_loop_step:
  assumes "0 \<le> iLow" "iLow < iHigh" "iHigh \<le> 2 ^ 52"
  shows "bisect_loop t S (Finite iLow) (Finite iHigh) =
           (if S (Finite ((iLow + iHigh + 1) div 2)) \<le> t
            then bisect_loop t S (Finite ((iLow + iHigh + 1) div 2)) (Finite iHigh)
            else bisect_loop t S (Finite iLow) (Finite ((iLow + iHigh + 1) div 2 - 1)))"
  by (subst bisect_loop.simps) (simp only: loop_step_exact [OF assms] if_False Let_def)

lemma bisect_loop_fuel_step:
  assumes "0 \<le> iLow" "iLow < iHigh" "iHigh \<le> 2 ^ 52"
  shows "bisect_loop_fuel (Suc f) t S (Finite iLow) (Finite iHigh) =
           (if S (Finite ((iLow + iHigh + 1) div 2)) \<le> t
            then bisect_loop_fuel f t S (Finite ((iLow + iHigh + 1) div 2)) (Finite iHigh)
            else bisect_loop_fuel f t S (Finite iLow) (Finite ((iLow + iHigh + 1) div 2 - 1)))"
  by (simp only: bisect_loop_fuel.simps loop_step_exact [OF assms] if_False Let_def)

lemma bisect_loop_invariant:
  assumes "0 \<le> iLow" "iLow \<le> iHigh" "iHigh < n" "n \<le> 2 ^ 52 + 1"
    and "S (Finite iLow) \<le> t" "iHigh = n - 1 \<or> t < S (Finite (iHigh + 1))"
  shows "\<exists>i. bisect_loop t S (Finite iLow) (Finite iHigh) =
               Some \<lparr>lowIndex = Finite i, foundValue = (S (Finite i) = t)\<rparr>
           \<and> iLow \<le> i \<and> i \<le> iHigh \<and> S (Finite i) \<le> t
           \<and> (i = n - 1 \<or> t < S (Finite (i + 1)))"
  using assms
proof (induction "nat (iHigh - iLow)" arbitrary: iLow iHigh rule: less_induct)
  case less
  show ?case
  proof (cases "iHigh = iLow")
    case True
    then show ?thesis
      using less.prems by (auto simp: bisect_loop_return)
  next
    case False
    then have lt: "iLow < iHigh" using less.prems by simp
    have hi: "iHigh \<le> 2 ^ 52" using less.prems by simp
    define iMid where "iMid = (iLow + iHigh + 1) div 2"
    have mid: "iLow < iMid" "iMid \<le> iHigh"
      using midpoint_between [OF lt] by (simp_all add: iMid_def)
    have step: "bisect_loop t S (Finite iLow) (Finite iHigh) =
           (if S (Finite iMid) \<le> t then bisect_loop t S (Finite iMid) (Finite iHigh)
            else bisect_loop t S (Finite iLow) (Finite (iMid - 1)))"
      unfolding iMid_def using less.prems(1) lt hi by (rule bisect_loop_step)
    show ?thesis
    proof (cases "S (Finite iMid) \<le> t")
      case True
      have "\<exists>i. bisect_loop t S (Finite iMid) (Finite iHigh) =
               Some \<lparr>lowIndex = Finite i, foundValue = (S (Finite i) = t)\<rparr>
           \<and> iMid \<le> i \<and> i \<le> iHigh \<and> S (Finite i) \<le> t
           \<and> (i = n - 1 \<or> t < S (Finite (i + 1)))"
        using mid less.prems True by (intro less.hyps) auto
      then show ?thesis using mid step True by auto
    next
      case gt: False
      have "\<exists>i. bisect_loop t S (Finite iLow) (Finite (iMid - 1)) =
               Some \<lparr>lowIndex = Finite i, foundValue = (S (Finite i) = t)\<rparr>
           \<and> iLow \<le> i \<and> i \<le> iMid - 1 \<and> S (Finite i) \<le> t
           \<and> (i = n - 1 \<or> t < S (Finite (i + 1)))"
        using mid less.prems gt by (intro less.hyps) auto
      then show ?thesis using mid step gt by auto
    qed
  qed
qed

lemma bisect_loop_fuel_enough:
  assumes "0 \<le> iLow" "iLow \<le> iHigh" "iHigh \<le> 2 ^ 52" "iHigh - iLow < 2 ^ k"
  shows "\<exists>r. bisect_loop_fuel (Suc k) t S (Finite iLow) (Finite iHigh) = Some r
             \<and> bisect_loop t S (Finite iLow) (Finite iHigh) = Some r"
  using assms
proof (induction k arbitrary: iLow iHigh)
  case 0
  then have "iHigh = iLow" by simp
  then show ?case by (simp add: bisect_loop_return)
next
  case (Suc k)
  show ?case
  proof (cases "iHigh = iLow")
    case True
    then show ?thesis by (simp add: bisect_loop_return)
  next
    case False
    then have lt: "iLow < iHigh" using Suc.prems by simp
    define iMid where "iMid = (iLow + iHigh + 1) div 2"
    have mid: "iLow < iMid" "iMid \<le> iHigh"
      using midpoint_between [OF lt] by (simp_all add: iMid_def)
    have half: "(iHigh - iLow) div 2 < 2 ^ k"
      using Suc.prems(4) by simp
    have w: "iHigh - iMid < 2 ^ k" "iMid - 1 - iLow < 2 ^ k"
      using midpoint_width [OF lt] half by (simp_all add: iMid_def)
    have step: "bisect_loop t S (Finite iLow) (Finite iHigh) =
           (if S (Finite iMid) \<le> t then bisect_loop t S (Finite iMid) (Finite iHigh)
            else bisect_loop t S (Finite iLow) (Finite (iMid - 1)))"
      unfolding iMid_def using Suc.prems(1) lt Suc.prems(3) by (rule bisect_loop_step)
    have fstep: "bisect_loop_fuel (Suc (Suc k)) t S (Finite iLow) (Finite iHigh) =
           (if S (Finite iMid) \<le> t then bisect_loop_fuel (Suc k) t S (Finite iMid) (Finite iHigh)
            else bisect_loop_fuel (Suc k) t S (Finite iLow) (Finite (iMid - 1)))"
      unfolding iMid_def using Suc.prems(1) lt Suc.prems(3) by (rule bisect_loop_fuel_step)
    show ?thesis
    proof (cases "S (Finite iMid) \<le> t")
      case True
      have "\<exists>r. bisect_loop_fuel (Suc k) t S (Finite iMid) (Finite iHigh) = Some r
             \<and> bisect_loop t S (Finite iMid) (Finite iHigh) = Some r"
        using mid w Suc.prems by (intro Suc.IH) auto
      then show ?thesis using True by (simp only: step fstep if_True)
    next
      case gt: False
      have "\<exists>r. bisect_loop_fuel (Suc k) t S (Finite iLow) (Finite (iMid - 1)) = Some r
             \<and> bisect_loop t S (Finite iLow) (Finite (iMid - 1)) = Some r"
        using mid w Suc.prems by (intro Suc.IH) auto
      then show ?thesis using gt by (simp only: step fstep if_False)
    qed
  qed
qed

lemma bisect_loop_total:
  assumes "0 \<le> iLow" "iLow \<le> iHigh" "iHigh \<le> 2 ^ 52"
  shows "\<exists>r. bisect_loop t S (Finite iLow) (Finite iHigh) = Some r"
proof -
  have "int (nat (iHigh - iLow)) < 2 ^ nat (iHigh - iLow)"
    by (rule of_nat_less_two_power)
  then have "iHigh - iLow < 2 ^ nat (iHigh - iLow)"
    using assms by simp
  then show ?thesis
    using bisect_loop_fuel_enough [OF assms] by blast
qed

subsection \<open>The loop at the length \<open>2^52 + 2\<close>\<close>

lemma midpoint_near_bound:
  fixes B :: int
  assumes exact: "\<And>x. \<bar>x\<bar> < 2 * B \<Longrightarrow> round_double x = Finite x"
    and lim: "round_double (2 * B) = Finite (2 * B)" "round_double (2 * B + 1) = Finite (2 * B)"
    and a: "0 \<le> a" "a \<le> B"
  shows "\<exists>m. ceil_half (num_add (Finite a) (Finite (B + 1))) = Finite m \<and> 0 \<le> m \<and> m \<le> B"
proof -
  consider "a \<le> B - 2" | "a = B - 1" | "a = B" using a(2) by linarith
  then show ?thesis
  proof cases
    case 1
    then have "\<bar>a + (B + 1)\<bar> < 2 * B" using a(1) by linarith
    then have "round_double (a + (B + 1)) = Finite (a + (B + 1))"
      by (rule exact)
    then have "ceil_half (num_add (Finite a) (Finite (B + 1))) = Finite ((a + (B + 1) + 1) div 2)"
      by (simp only: num_add.simps ceil_half.simps half_ceiling)
    moreover have "0 \<le> (a + (B + 1) + 1) div 2" "(a + (B + 1) + 1) div 2 \<le> B"
      using 1 a(1) by linarith+
    ultimately show ?thesis by blast
  next
    case 2
    then have "a + (B + 1) = 2 * B" by linarith
    then have "ceil_half (num_add (Finite a) (Finite (B + 1))) = Finite ((2 * B + 1) div 2)"
      by (simp only: num_add.simps lim ceil_half.simps half_ceiling)
    moreover have "(2 * B + 1) div 2 = B" by linarith
    ultimately show ?thesis using a 2 by simp
  next
    case 3
    then have "a + (B + 1) = 2 * B + 1" by linarith
    then have "ceil_half (num_add (Finite a) (Finite (B + 1))) = Finite ((2 * B + 1) div 2)"
      by (simp only: num_add.simps lim ceil_half.simps half_ceiling)
    moreover have "(2 * B + 1) div 2 = B" by linarith
    ultimately show ?thesis using a 3 by simp
  qed
qed

lemma midpoint_near_limit:
  assumes "0 \<le> a" "a \<le> 2 ^ 52"
  shows "\<exists>m. ceil_half (num_add (Finite a) (Finite (2 ^ 52 + 1))) = Finite m
           \<and> 0 \<le> m \<and> m \<le> 2 ^ 52"
proof -
  have two: "2 * (2::int) ^ 52 = 2 ^ 53" by simp
  show ?thesis
  proof (rule midpoint_near_bound [OF _ _ _ assms])
    show "round_double x = Finite x" if "\<bar>x\<bar> < 2 * 2 ^ 52" for x
      using that unfolding two by (rule round_double_exact)
    show "round_double (2 * 2 ^ 52) = Finite (2 * 2 ^ 52)"
      unfolding two by (rule round_double_at_limit)
    show "round_double (2 * 2 ^ 52 + 1) = Finite (2 * 2 ^ 52)"
      unfolding two by (rule round_double_at_limit)
  qed
qed

lemma bisect_loop_stuck:
  assumes "bisect_loop t S lo hi = Some r"
  shows "\<not> (\<exists>a. lo = Finite a \<and> 0 \<le> a \<and> a \<le> 2 ^ 52 \<and> hi = Finite (2 ^ 52 + 1)
             \<and> (\<forall>i. 0 \<le> i \<and> i \<le> 2 ^ 52 \<longrightarrow> S (Finite i) \<le> t))"
proof -
  let ?stuck = "\<lambda>(t::int) (S::number \<Rightarrow> int) lo hi.
      \<exists>a. lo = Finite a \<and> 0 \<le> a \<and> a \<le> 2 ^ 52 \<and> hi = Finite (2 ^ 52 + 1)
             \<and> (\<forall>i. 0 \<le> i \<and> i \<le> 2 ^ 52 \<longrightarrow> S (Finite i) \<le> t)"
  have "\<not> ?stuck t S lo hi"
  proof (rule bisect_loop.raw_induct
      [where P = "\<lambda>t S lo hi (r::bisect_result). \<not> ?stuck t S lo hi", OF _ assms])
    fix loop :: "int \<Rightarrow> (number \<Rightarrow> int) \<Rightarrow> number \<Rightarrow> number \<Rightarrow> bisect_result option"
    fix t S lo hi r
    assume IH: "\<And>t S lo hi r. loop t S lo hi = Some r \<Longrightarrow> \<not> ?stuck t S lo hi"
    assume body: "(if strict_equal hi lo
          then Some \<lparr>lowIndex = lo, foundValue = (S lo = t)\<rparr>
          else let iMid = ceil_half (num_add lo hi)
               in if S iMid \<le> t then loop t S iMid hi
                  else loop t S lo (num_pred iMid)) = Some r"
    show "\<not> ?stuck t S lo hi"
    proof
      assume "?stuck t S lo hi"
      then obtain a where a: "lo = Finite a" "0 \<le> a" "a \<le> 2 ^ 52" "hi = Finite (2 ^ 52 + 1)"
        and below: "\<forall>i. 0 \<le> i \<and> i \<le> 2 ^ 52 \<longrightarrow> S (Finite i) \<le> t"
        by blast
      obtain m where m: "ceil_half (num_add lo hi) = Finite m" "0 \<le> m" "m \<le> 2 ^ 52"
        unfolding a(1,4) using midpoint_near_limit [OF a(2,3)] by blast
      have "a \<noteq> 2 ^ 52 + 1" using a(3) by simp
      then have ne: "\<not> strict_equal hi lo" unfolding a(1,4) by simp
      have le: "S (Finite m) \<le> t" using below m(2,3) by blast
      have "loop t S (Finite m) hi = Some r"
        using body ne le by (simp only: m(1) Let_def if_False if_True)
      then have "\<not> ?stuck t S (Finite m) hi"
        by (rule IH)
      then show False using m(2,3) a(4) below by blast
    qed
  qed
  then show ?thesis .
qed

lemma bisectUnique_stuck:
  assumes "2 ^ 52 \<le> t" "t \<le> 2 ^ 52 + 1"
  shows "bisectUnique t index_value (Finite (2 ^ 52 + 2)) = None"
proof -
  have "num_pred (Finite (2 ^ 52 + 2)) = Finite (2 ^ 52 + 2 - 1)"
    by (rule num_pred_exact) simp_all
  then have hi: "num_pred (Finite (2 ^ 52 + 2)) = Finite (2 ^ 52 + 1)"
    by simp
  have run: "bisectUnique t index_value (Finite (2 ^ 52 + 2))
      = bisect_loop t index_value (Finite 0) (Finite (2 ^ 52 + 1))"
    unfolding bisectUnique_def Let_def hi using assms by simp
  have stuck: "\<exists>a. Finite 0 = Finite a \<and> 0 \<le> a \<and> a \<le> 2 ^ 52
             \<and> Finite (2 ^ 52 + 1) = Finite (2 ^ 52 + 1)
             \<and> (\<forall>i. 0 \<le> i \<and> i \<le> 2 ^ 52 \<longrightarrow> index_value (Finite i) \<le> t)"
    using assms(1) by auto
  have "bisect_loop t index_value (Finite 0) (Finite (2 ^ 52 + 1)) = None"
  proof (cases "bisect_loop t index_value (Finite 0) (Finite (2 ^ 52 + 1))")
    case None
    then show ?thesis .
  next
    case (Some r)
    then show ?thesis using bisect_loop_stuck [OF Some] stuck by blast
  qed
  then show ?thesis using run by simp
qed

subsection \<open>The result and the termination of the search\<close>

text \<open>
  The claim C1 as it is written is about every length \<open>n \<ge> 1\<close>. At the length
  \<open>2^52 + 2\<close>, on the sequence \<open>S[i] = i\<close> and the target \<open>2^52 + 1 = S[n - 1]\<close>, the claim
  says that the result is \<open>(n - 1, true)\<close>. The search comes to the interval of the
  indices \<open>2^52\<close> and \<open>2^52 + 1\<close>, whose sum \<open>2^53 + 1\<close> is no double: it is rounded to
  \<open>2^53\<close>, the midpoint is \<open>iLow\<close>, and the loop never returns.
\<close>

theorem bisectUnique_result_counterexample:
  "bisectUnique (2 ^ 52 + 1) index_value (Finite (2 ^ 52 + 2)) = None"
  by (rule bisectUnique_stuck) simp_all

text \<open>
  Claim C1, amended. On a strictly increasing sequence \<open>S\<close> of length \<open>n\<close> with
  \<open>1 \<le> n \<le> 2^52 + 1\<close> and a target \<open>t\<close>, \<open>bisectUnique\<close> returns \<open>(-1, false)\<close> if
  \<open>t < S[0]\<close>, returns \<open>(n - 1, false)\<close> if \<open>t > S[n - 1]\<close>, and otherwise returns
  \<open>(i, found)\<close> with \<open>S[i] \<le> t\<close>, with \<open>i = n - 1\<close> or \<open>t < S[i + 1]\<close>, and with \<open>found\<close> true
  exactly when \<open>S[i] = t\<close>; this \<open>i\<close> is the greatest index whose value is at most \<open>t\<close>.
\<close>

theorem bisectUnique_correct:
  assumes "1 \<le> n" and "n \<le> 2 ^ 52 + 1"
    and "\<forall>i j. 0 \<le> i \<and> i < j \<and> j < n \<longrightarrow> S (Finite i) < S (Finite j)"
  shows "(t < S (Finite 0) \<longrightarrow>
         bisectUnique t S (Finite n) = Some \<lparr>lowIndex = Finite (- 1), foundValue = False\<rparr>)
    \<and> (t > S (Finite (n - 1)) \<longrightarrow>
         bisectUnique t S (Finite n) = Some \<lparr>lowIndex = Finite (n - 1), foundValue = False\<rparr>)
    \<and> (S (Finite 0) \<le> t \<and> t \<le> S (Finite (n - 1)) \<longrightarrow>
         (\<exists>i found. bisectUnique t S (Finite n) = Some \<lparr>lowIndex = Finite i, foundValue = found\<rparr>
            \<and> 0 \<le> i \<and> i < n \<and> S (Finite i) \<le> t \<and> (i = n - 1 \<or> t < S (Finite (i + 1)))
            \<and> (found \<longleftrightarrow> S (Finite i) = t)
            \<and> (\<forall>j. 0 \<le> j \<and> j < n \<and> S (Finite j) \<le> t \<longrightarrow> j \<le> i)))"
proof -
  have "num_pred (Finite n) = Finite (n - 1)"
    using assms(1,2) by (intro num_pred_exact) simp_all
  then have unfold: "bisectUnique t S (Finite n) =
      (if S (Finite 0) > t then Some \<lparr>lowIndex = Finite (- 1), foundValue = False\<rparr>
       else if S (Finite (n - 1)) < t then Some \<lparr>lowIndex = Finite (n - 1), foundValue = False\<rparr>
       else bisect_loop t S (Finite 0) (Finite (n - 1)))"
    by (simp only: bisectUnique_def Let_def)
  show ?thesis
  proof (intro conjI impI)
    assume "t < S (Finite 0)"
    then show "bisectUnique t S (Finite n) = Some \<lparr>lowIndex = Finite (- 1), foundValue = False\<rparr>"
      by (simp add: unfold)
  next
    assume hi: "S (Finite (n - 1)) < t"
    have "S (Finite 0) \<le> S (Finite (n - 1))"
    proof (cases "n = 1")
      case True
      then show ?thesis by simp
    next
      case False
      then have "S (Finite 0) < S (Finite (n - 1))" using assms(1,3) by simp
      then show ?thesis by simp
    qed
    then show "bisectUnique t S (Finite n) = Some \<lparr>lowIndex = Finite (n - 1), foundValue = False\<rparr>"
      using hi by (simp add: unfold)
  next
    assume mid: "S (Finite 0) \<le> t \<and> t \<le> S (Finite (n - 1))"
    obtain i where i: "bisect_loop t S (Finite 0) (Finite (n - 1)) =
          Some \<lparr>lowIndex = Finite i, foundValue = (S (Finite i) = t)\<rparr>"
        "0 \<le> i" "i \<le> n - 1" "S (Finite i) \<le> t" "i = n - 1 \<or> t < S (Finite (i + 1))"
      using bisect_loop_invariant [of 0 "n - 1" n S t] assms(1,2) mid by auto
    have run: "bisectUnique t S (Finite n) =
        Some \<lparr>lowIndex = Finite i, foundValue = (S (Finite i) = t)\<rparr>"
      using mid i(1) by (simp add: unfold)
    have greatest: "j \<le> i" if j: "0 \<le> j \<and> j < n \<and> S (Finite j) \<le> t" for j
    proof (rule ccontr)
      assume "\<not> j \<le> i"
      then have ji: "i + 1 \<le> j" by simp
      then have next_le: "S (Finite (i + 1)) \<le> S (Finite j)"
      proof (cases "i + 1 = j")
        case True
        then show ?thesis by simp
      next
        case False
        then have "S (Finite (i + 1)) < S (Finite j)" using assms(3) ji i(2) j by simp
        then show ?thesis by simp
      qed
      have "i \<noteq> n - 1" using ji j by linarith
      then have "t < S (Finite (i + 1))" using i(5) by simp
      then show False using next_le j by linarith
    qed
    show "\<exists>i found. bisectUnique t S (Finite n) = Some \<lparr>lowIndex = Finite i, foundValue = found\<rparr>
            \<and> 0 \<le> i \<and> i < n \<and> S (Finite i) \<le> t \<and> (i = n - 1 \<or> t < S (Finite (i + 1)))
            \<and> (found \<longleftrightarrow> S (Finite i) = t)
            \<and> (\<forall>j. 0 \<le> j \<and> j < n \<and> S (Finite j) \<le> t \<longrightarrow> j \<le> i)"
      using run i(2,3,4,5) greatest
      by (intro exI [of _ i] exI [of _ "S (Finite i) = t"]) auto
  qed
qed

theorem bisectUnique_correct_witness:
  "bisectUnique 0 (\<lambda>x. 2 * index_value x + 1) (Finite 3) =
      Some \<lparr>lowIndex = Finite (- 1), foundValue = False\<rparr>
   \<and> bisectUnique 9 (\<lambda>x. 2 * index_value x + 1) (Finite 3) =
      Some \<lparr>lowIndex = Finite 2, foundValue = False\<rparr>
   \<and> bisectUnique 3 (\<lambda>x. 2 * index_value x + 1) (Finite 3) =
      Some \<lparr>lowIndex = Finite 1, foundValue = True\<rparr>
   \<and> bisectUnique 4 (\<lambda>x. 2 * index_value x + 1) (Finite 3) =
      Some \<lparr>lowIndex = Finite 1, foundValue = False\<rparr>"
proof -
  let ?S = "\<lambda>x. 2 * index_value x + 1"
  have n: "(1::int) \<le> 3" and bd: "(3::int) \<le> 2 ^ 52 + 1" by simp_all
  have inc: "\<forall>i j. 0 \<le> i \<and> i < j \<and> j < 3 \<longrightarrow> ?S (Finite i) < ?S (Finite j)" by simp
  have a: "bisectUnique 0 ?S (Finite 3) = Some \<lparr>lowIndex = Finite (- 1), foundValue = False\<rparr>"
    using bisectUnique_correct [OF n bd inc, of 0] by simp
  have b: "bisectUnique 9 ?S (Finite 3) = Some \<lparr>lowIndex = Finite 2, foundValue = False\<rparr>"
    using bisectUnique_correct [OF n bd inc, of 9] by simp
  obtain i found where
      c: "bisectUnique 3 ?S (Finite 3) = Some \<lparr>lowIndex = Finite i, foundValue = found\<rparr>"
      "0 \<le> i" "i < 3" "?S (Finite i) \<le> 3" "i = 3 - 1 \<or> 3 < ?S (Finite (i + 1))"
      "found \<longleftrightarrow> ?S (Finite i) = 3"
    using bisectUnique_correct [OF n bd inc, of 3] by auto
  have "i = 1" using c(2-5) by simp
  then have c': "bisectUnique 3 ?S (Finite 3) = Some \<lparr>lowIndex = Finite 1, foundValue = True\<rparr>"
    using c(1,6) by simp
  obtain i' found' where
      d: "bisectUnique 4 ?S (Finite 3) = Some \<lparr>lowIndex = Finite i', foundValue = found'\<rparr>"
      "0 \<le> i'" "i' < 3" "?S (Finite i') \<le> 4" "i' = 3 - 1 \<or> 4 < ?S (Finite (i' + 1))"
      "found' \<longleftrightarrow> ?S (Finite i') = 4"
    using bisectUnique_correct [OF n bd inc, of 4] by auto
  have "i' = 1" using d(2-5) by simp
  then have d': "bisectUnique 4 ?S (Finite 3) = Some \<lparr>lowIndex = Finite 1, foundValue = False\<rparr>"
    using d(1,6) by simp
  show ?thesis using a b c' d' by simp
qed

text \<open>
  The claim C5 as it is written says that \<open>bisectUnique\<close> terminates for every length
  \<open>n \<ge> 1\<close>. At the length \<open>2^52 + 2\<close>, on the sequence \<open>S[i] = i\<close> and the target \<open>2^52\<close>, the
  loop does not return: on the interval of \<open>2^52\<close> and \<open>2^52 + 1\<close> the rounded midpoint is
  \<open>iLow\<close>, and the interval does not shrink.
\<close>

theorem bisectUnique_terminates_counterexample:
  "bisectUnique (2 ^ 52) index_value (Finite (2 ^ 52 + 2)) = None"
  by (rule bisectUnique_stuck) simp_all

text \<open>
  Claim C5, amended. \<open>bisectUnique\<close> returns on every sequence of length \<open>n\<close> with
  \<open>1 \<le> n \<le> 2^52 + 1\<close>, strictly increasing or not. The loop started on \<open>[0, n - 1]\<close>
  returns within \<open>k + 1\<close> iterations when \<open>n \<le> 2^k\<close>, a logarithmic number. The reason is
  the midpoint: on an interval with \<open>iLow < iHigh\<close> below \<open>n\<close> it is computed exactly, it
  lies in \<open>(iLow, iHigh]\<close>, so that both \<open>[iMid, iHigh]\<close> and \<open>[iLow, iMid - 1]\<close> are strictly
  smaller and not empty; in the two-element case \<open>iLow + 1 = iHigh\<close> it is \<open>iHigh\<close>.
\<close>

theorem bisectUnique_terminates:
  assumes "1 \<le> n" and "n \<le> 2 ^ 52 + 1"
  shows "(\<exists>r. bisectUnique t S (Finite n) = Some r)
    \<and> (n \<le> 2 ^ k \<longrightarrow>
         (\<exists>r. bisect_loop_fuel (Suc k) t S (Finite 0) (Finite (n - 1)) = Some r
              \<and> bisect_loop t S (Finite 0) (Finite (n - 1)) = Some r))
    \<and> (0 \<le> iLow \<and> iLow < iHigh \<and> iHigh < n \<longrightarrow>
         (\<exists>iMid. ceil_half (num_add (Finite iLow) (Finite iHigh)) = Finite iMid
            \<and> num_pred (Finite iMid) = Finite (iMid - 1)
            \<and> iLow < iMid \<and> iMid \<le> iHigh
            \<and> (iLow + 1 = iHigh \<longrightarrow> iMid = iHigh)))"
proof (intro conjI impI)
  have pred: "num_pred (Finite n) = Finite (n - 1)"
    using assms by (intro num_pred_exact) simp_all
  obtain r where "bisect_loop t S (Finite 0) (Finite (n - 1)) = Some r"
    using bisect_loop_total [of 0 "n - 1"] assms by auto
  then show "\<exists>r. bisectUnique t S (Finite n) = Some r"
    by (simp add: bisectUnique_def Let_def pred del: num_pred.simps)
next
  assume "n \<le> 2 ^ k"
  then show "\<exists>r. bisect_loop_fuel (Suc k) t S (Finite 0) (Finite (n - 1)) = Some r
              \<and> bisect_loop t S (Finite 0) (Finite (n - 1)) = Some r"
    using assms by (intro bisect_loop_fuel_enough) auto
next
  assume range: "0 \<le> iLow \<and> iLow < iHigh \<and> iHigh < n"
  then have lo: "0 \<le> iLow" and lt: "iLow < iHigh" and hi: "iHigh \<le> 2 ^ 52"
    using assms(2) by simp_all
  have "iLow + 1 = iHigh \<longrightarrow> (iLow + iHigh + 1) div 2 = iHigh"
    by linarith
  then show "\<exists>iMid. ceil_half (num_add (Finite iLow) (Finite iHigh)) = Finite iMid
            \<and> num_pred (Finite iMid) = Finite (iMid - 1)
            \<and> iLow < iMid \<and> iMid \<le> iHigh
            \<and> (iLow + 1 = iHigh \<longrightarrow> iMid = iHigh)"
    using loop_step_exact(1,2) [OF lo lt hi] midpoint_between [OF lt]
    by (intro exI [of _ "(iLow + iHigh + 1) div 2"]) simp
qed

theorem bisectUnique_terminates_witness:
  "(\<exists>r. bisectUnique 3 (\<lambda>x. 2 * index_value x + 1) (Finite 3) = Some r)
    \<and> (\<exists>r. bisect_loop_fuel (Suc 2) 3 (\<lambda>x. 2 * index_value x + 1) (Finite 0) (Finite 2) = Some r
            \<and> bisect_loop 3 (\<lambda>x. 2 * index_value x + 1) (Finite 0) (Finite 2) = Some r)
    \<and> (\<exists>iMid. ceil_half (num_add (Finite 0) (Finite 1)) = Finite iMid
          \<and> num_pred (Finite iMid) = Finite (iMid - 1) \<and> 0 < iMid \<and> iMid \<le> 1 \<and> iMid = 1)"
  using bisectUnique_terminates [of 3 3 "\<lambda>x. 2 * index_value x + 1" 2 0 1]
  by simp

section \<open>Properties of the indexed Merkle map\<close>

subsection \<open>The cache of empty nodes\<close>

lemma empty_loop_canonical:
  assumes "canonical_emptyNodes H c"
  shows "empty_loop H level (length c) c = map (empty_spec H) [0 ..< max (length c) (Suc level)]"
  using assms
proof (induction "Suc level - length c" arbitrary: c)
  case 0
  then have "\<not> length c \<le> level" by simp
  then have "empty_loop H level (length c) c = c" "max (length c) (Suc level) = length c"
    by (simp_all add: empty_loop.simps)
  then show ?case using "0.prems" by (simp add: canonical_emptyNodes_def)
next
  case (Suc d)
  then have le: "length c \<le> level" by simp
  have ne: "c \<noteq> []" and c: "c = map (empty_spec H) [0 ..< length c]"
    using Suc.prems by (simp_all add: canonical_emptyNodes_def)
  have pos: "0 < length c" using ne by simp
  have "c ! (length c - 1) = map (empty_spec H) [0 ..< length c] ! (length c - 1)"
    using c by simp
  also have "\<dots> = empty_spec H (length c - 1)"
    using pos by (simp del: map_upt_eqI)
  finally have zero: "c ! (length c - 1) = empty_spec H (length c - 1)" .
  have suc: "Suc (length c - 1) = length c" using pos by simp
  have "H [c ! (length c - 1), c ! (length c - 1)] = empty_spec H (Suc (length c - 1))"
    by (simp only: zero empty_spec.simps)
  then have new: "H [c ! (length c - 1), c ! (length c - 1)] = empty_spec H (length c)"
    by (simp only: suc)
  define c' where "c' = c @ [empty_spec H (length c)]"
  have len': "length c' = Suc (length c)" by (simp add: c'_def)
  have "c' = map (empty_spec H) [0 ..< length c] @ [empty_spec H (length c)]"
    using c by (simp add: c'_def)
  then have "c' = map (empty_spec H) [0 ..< length c']"
    by (simp add: len')
  then have ok': "canonical_emptyNodes H c'"
    by (simp add: canonical_emptyNodes_def c'_def)
  have step: "empty_loop H level (length c) c = empty_loop H level (length c') c'"
    using le new by (subst empty_loop.simps) (simp add: array_write_def c'_def)
  have "empty_loop H level (length c') c'
      = map (empty_spec H) [0 ..< max (length c') (Suc level)]"
    using Suc.hyps(2) ok' by (intro Suc.hyps(1)) (simp_all add: len')
  moreover have "max (length c') (Suc level) = max (length c) (Suc level)"
    using le by (simp add: len')
  ultimately show ?case using step by simp
qed

lemma empty_canonical:
  assumes "canonical_emptyNodes H c"
  shows "empty H c level = (empty_spec H level, map (empty_spec H) [0 ..< max (length c) (Suc level)])"
proof -
  have "level < max (length c) (Suc level)" by simp
  then have "map (empty_spec H) [0 ..< max (length c) (Suc level)] ! level = empty_spec H level"
    by (simp del: upt_Suc)
  then show ?thesis
    by (simp add: empty_def empty_loop_canonical [OF assms])
qed

lemma canonical_after_empty:
  assumes "canonical_emptyNodes H c"
  shows "canonical_emptyNodes H (snd (empty H c level))"
  by (simp add: empty_canonical [OF assms] canonical_emptyNodes_def del: upt_Suc)

lemma canonical_initial: "canonical_emptyNodes H [0]"
  by (simp add: canonical_emptyNodes_def)

lemma reachable_canonical:
  assumes "reachable_emptyNodes H c"
  shows "canonical_emptyNodes H c"
  using assms by induction (simp_all add: canonical_initial canonical_after_empty)

lemma empty_value:
  assumes "reachable_emptyNodes H c"
  shows "fst (empty H c level) = empty_spec H level"
  by (simp add: empty_canonical [OF reachable_canonical [OF assms]])

text \<open>
  Claim C7. \<open>empty\<close> is deterministic: whatever calls of \<open>empty\<close> came before, and also
  when the call is repeated, it returns the same value for the same level. The values
  satisfy \<open>empty(0) = 0\<close> and \<open>empty(level + 1) = hash(empty(level), empty(level))\<close>, that
  is, they are the values of the recurrence \<open>empty_spec\<close>.
\<close>

theorem empty_deterministic_recurrence:
  assumes "reachable_emptyNodes H emptyNodes" and "reachable_emptyNodes H emptyNodes'"
  shows "fst (empty H emptyNodes level) = fst (empty H emptyNodes' level)
    \<and> fst (empty H (snd (empty H emptyNodes level)) level) = fst (empty H emptyNodes level)
    \<and> fst (empty H emptyNodes 0) = 0
    \<and> fst (empty H emptyNodes (Suc level))
        = H [fst (empty H emptyNodes' level), fst (empty H emptyNodes' level)]
    \<and> fst (empty H emptyNodes level) = empty_spec H level"
proof -
  have "reachable_emptyNodes H (snd (empty H emptyNodes level))"
    using assms(1) by (rule reachable_emptyNodes.after_empty)
  then show ?thesis
    using assms by (simp add: empty_value)
qed

theorem empty_deterministic_recurrence_witness:
  "fst (empty (\<lambda>xs. sum_list xs + 1) [0] 2)
     = fst (empty (\<lambda>xs. sum_list xs + 1) (snd (empty (\<lambda>xs. sum_list xs + 1) [0] 3)) 2)
   \<and> fst (empty (\<lambda>xs. sum_list xs + 1) [0] 0) = 0
   \<and> fst (empty (\<lambda>xs. sum_list xs + 1) [0] (Suc 2))
       = 2 * fst (empty (\<lambda>xs. sum_list xs + 1) (snd (empty (\<lambda>xs. sum_list xs + 1) [0] 3)) 2) + 1
   \<and> fst (empty (\<lambda>xs. sum_list xs + 1) [0] 2) = 3"
  using empty_deterministic_recurrence
          [OF reachable_emptyNodes.initial
              reachable_emptyNodes.after_empty [OF reachable_emptyNodes.initial, of _ 3],
           of "\<lambda>xs. sum_list xs + 1" 2]
  by (simp add: numeral_2_eq_2)

subsection \<open>Reading a node, and the new map\<close>

text \<open>
  Claim C6. For every level and index, \<open>getNode\<close> returns the cached hash when the entry
  is present. When the entry is absent it fails, with the level and the index, if
  \<open>nonEmpty\<close> is true, and it returns what \<open>empty(level)\<close> returns if \<open>nonEmpty\<close> is false:
  the canonical hash of the empty subtree of that level.
\<close>

theorem getNode_cases:
  "(cached_node this level index = Some node \<longrightarrow>
      getNode H emptyNodes this level index nonEmpty = Inr (node, emptyNodes))
   \<and> (cached_node this level index = None \<longrightarrow>
      getNode H emptyNodes this level index True = Inl (NodeExpectedKnown level index)
      \<and> getNode H emptyNodes this level index False = Inr (empty H emptyNodes level)
      \<and> (reachable_emptyNodes H emptyNodes \<longrightarrow>
           fst (empty H emptyNodes level) = empty_spec H level))"
  by (simp add: getNode_def empty_value)

theorem getNode_cases_witness:
  "getNode (\<lambda>xs. sum_list xs + 1) [0]
      \<lparr>root = Constant 1, length_field = Constant 0, height = None, leaves = [],
       nodes = [[0 \<mapsto> 5], Map.empty], lowNodes = []\<rparr> 0 0 True = Inr (5, [0])
   \<and> getNode (\<lambda>xs. sum_list xs + 1) [0]
      \<lparr>root = Constant 1, length_field = Constant 0, height = None, leaves = [],
       nodes = [[0 \<mapsto> 5], Map.empty], lowNodes = []\<rparr> 1 0 True = Inl (NodeExpectedKnown 1 0)
   \<and> getNode (\<lambda>xs. sum_list xs + 1) [0]
      \<lparr>root = Constant 1, length_field = Constant 0, height = None, leaves = [],
       nodes = [[0 \<mapsto> 5], Map.empty], lowNodes = []\<rparr> 1 0 False = Inr (1, [0, 1])"
  using getNode_cases
          [of "\<lparr>root = Constant 1, length_field = Constant 0, height = None, leaves = [],
                nodes = [[0 \<mapsto> 5], Map.empty], lowNodes = []\<rparr>" 0 0 5
              "\<lambda>xs. sum_list xs + 1" "[0]" True]
        getNode_cases
          [of "\<lparr>root = Constant 1, length_field = Constant 0, height = None, leaves = [],
                nodes = [[0 \<mapsto> 5], Map.empty], lowNodes = []\<rparr>" 1 0 5
              "\<lambda>xs. sum_list xs + 1" "[0]" True]
  by (simp add: cached_node_def empty_def empty_loop.simps array_write_def)

text \<open>
  Claim C9. For every height \<open>h \<ge> 1\<close>, a map that the constructor returns has the root
  \<open>empty(h - 1)\<close>, the canonical hash of the empty subtree of level \<open>h - 1\<close>, and the
  length 0; it has \<open>h\<close> levels of nodes and no cached node. The constructor returns a map
  for every height from 1 to \<open>2^32 - 1\<close>, the greatest length of an array.
\<close>

theorem new_IndexedMerkleMap_empty:
  assumes "1 \<le> h" and "reachable_emptyNodes H emptyNodes"
  shows "(h < 2 ^ 32 \<longrightarrow> (\<exists>m emptyNodes'. new_IndexedMerkleMap H emptyNodes h = Inr (m, emptyNodes')))
    \<and> (new_IndexedMerkleMap H emptyNodes h = Inr (m, emptyNodes') \<longrightarrow>
          emptyNodes' = snd (empty H emptyNodes (nat (h - 1)))
        \<and> root m = Constant (fst (empty H emptyNodes (nat (h - 1))))
        \<and> root m = Constant (empty_spec H (nat (h - 1)))
        \<and> length_field m = Constant 0
        \<and> length (nodes m) = nat h
        \<and> leaves m = [] \<and> lowNodes m = []
        \<and> (\<forall>level index. cached_node m level index = None))"
proof -
  obtain e c where ec: "empty H emptyNodes (nat (h - 1)) = (e, c)"
    by (cases "empty H emptyNodes (nat (h - 1))")
  have "fst (empty H emptyNodes (nat (h - 1))) = empty_spec H (nat (h - 1))"
    using assms(2) by (rule empty_value)
  then have e: "e = empty_spec H (nat (h - 1))"
    using ec by simp
  show ?thesis
    using assms(1) e
    by (auto simp: new_IndexedMerkleMap_def ec cached_node_def split: if_splits)
qed

theorem new_IndexedMerkleMap_empty_witness:
  "new_IndexedMerkleMap (\<lambda>xs. sum_list xs + 1) [0] 3 =
     Inr (\<lparr>root = Constant 3, length_field = Constant 0, height = None, leaves = [],
           nodes = [Map.empty, Map.empty, Map.empty], lowNodes = []\<rparr>, [0, 1, 3])"
proof -
  have e: "empty (\<lambda>xs. sum_list xs + 1) [0] (nat (3 - 1)) = (3, [0, 1, 3])"
    by (simp add: empty_def empty_loop.simps array_write_def)
  have "\<exists>m c. new_IndexedMerkleMap (\<lambda>xs. sum_list xs + 1) [0] 3 = Inr (m, c)"
    using new_IndexedMerkleMap_empty
      [OF _ reachable_emptyNodes.initial, of 3 "\<lambda>xs. sum_list xs + 1", THEN conjunct1]
    by simp
  then obtain m c where *: "new_IndexedMerkleMap (\<lambda>xs. sum_list xs + 1) [0] 3 = Inr (m, c)"
    by blast
  have "root m = Constant (fst (empty (\<lambda>xs. sum_list xs + 1) [0] (nat (3 - 1))))"
      "length_field m = Constant 0"
    using new_IndexedMerkleMap_empty
      [OF _ reachable_emptyNodes.initial, of 3 "\<lambda>xs. sum_list xs + 1" m c] *
    by simp_all
  then show ?thesis
    using * e by (simp add: new_IndexedMerkleMap_def numeral_3_eq_3)
qed

subsection \<open>Writing a leaf\<close>





end
